theory Spec2Isabelle
  imports Main "HOL-Library.Sublist"
begin

section \<open>JavaScript string primitives used by the pages\<close>

text \<open>
  Strings are lists of code units; the model's alphabet is the 8-bit range of
  \<^typ>\<open>char\<close>. \<open>LF\<close> is the line feed that \<open>"\n"\<close> denotes in the sources.
\<close>

abbreviation LF :: char where
  "LF \<equiv> CHR 0x0A"

text \<open>\<open>String.prototype.trim\<close>: white space and line terminators below U+0100.\<close>

definition is_js_space :: "char \<Rightarrow> bool" where
  "is_js_space c \<longleftrightarrow> c \<in> set [CHR 0x09, CHR 0x0A, CHR 0x0B, CHR 0x0C, CHR 0x0D, CHR 0x20, CHR 0xA0]"

definition js_trim :: "string \<Rightarrow> string" where
  "js_trim s = rev (dropWhile is_js_space (rev (dropWhile is_js_space s)))"

text \<open>\<open>a || b\<close> on strings: the empty string is falsy.\<close>

definition or_else :: "string \<Rightarrow> string \<Rightarrow> string" where
  "or_else s d = (if s = [] then d else s)"

fun cons_first :: "char \<Rightarrow> string list \<Rightarrow> string list" where
  "cons_first c [] = [[c]]"
| "cons_first c (p # ps) = (c # p) # ps"

text \<open>
  \<open>s.split(sep)\<close>: the separator is searched from the left, matches do not overlap, and
  the result always has one more piece than there are matches.
\<close>

function js_split :: "string \<Rightarrow> string \<Rightarrow> string list" where
  "js_split sep s =
     (if sep = [] then map (\<lambda>c. [c]) s
      else if prefix sep s then [] # js_split sep (drop (length sep) s)
      else (case s of [] \<Rightarrow> [[]] | c # cs \<Rightarrow> cons_first c (js_split sep cs)))"
  by pat_completeness auto
termination
  by (relation "measure (\<lambda>(sep, s). length s)") (auto simp: prefix_def)

declare js_split.simps [simp del]

text \<open>\<open>parts.join(sep)\<close>.\<close>

fun js_join :: "string \<Rightarrow> string list \<Rightarrow> string" where
  "js_join sep [] = []"
| "js_join sep [p] = p"
| "js_join sep (p # q # ps) = p @ sep @ js_join sep (q # ps)"


section \<open>The rules chat page (\<open>ui/src/app/rules/page.tsx\<close>)\<close>

datatype Role = User | Assistant

record ChatMessage =
  role :: Role
  content :: string

datatype StreamEvent =
    Start
  | Chunk string
  | Done
  | Error "string option"

text \<open>A thrown value: an \<open>Error\<close> object with its message, or anything else.\<close>

datatype thrown = JsError string | NotAnError

text \<open>
  \<open>JSON.parse(payloadText) as StreamEvent\<close> is the platform's; it is a parameter of the
  model, \<open>None\<close> standing for the \<open>SyntaxError\<close> it throws. What it returns is taken to
  be of the declared type \<open>StreamEvent\<close>, as the cast in the source says.
\<close>

type_synonym json_parse = "string \<Rightarrow> StreamEvent option"

text \<open>The first trimmed line of a raw event that starts with \<open>data:\<close>.\<close>

definition dataLine :: "string \<Rightarrow> string option" where
  "dataLine rawEvent = List.find (prefix ''data:'') (map js_trim (js_split [LF] rawEvent))"

text \<open>
  Decoding one raw event, up to the \<open>JSON.parse\<close>: \<open>None\<close> is each of the three
  \<open>continue\<close> exits of the loop body.
\<close>

definition decode_event :: "json_parse \<Rightarrow> string \<Rightarrow> StreamEvent option" where
  "decode_event parse rawEvent =
     (case dataLine rawEvent of
        None \<Rightarrow> None
      | Some line \<Rightarrow>
          (let payloadText = js_trim (drop 5 line)
           in if payloadText = [] then None else parse payloadText))"

text \<open>The updater passed to \<open>setMessages\<close> for a chunk.\<close>

definition append_chunk :: "int \<Rightarrow> string \<Rightarrow> ChatMessage list \<Rightarrow> ChatMessage list" where
  "append_chunk assistantIndex chunk current =
     (if assistantIndex < 0 \<or> \<not> nat assistantIndex < length current then current
      else current[nat assistantIndex :=
             (current ! nat assistantIndex)
               \<lparr>content := content (current ! nat assistantIndex) @ chunk\<rparr>])"

text \<open>\<open>event.error || "Chat request failed"\<close>.\<close>

definition failed_message :: "string option \<Rightarrow> string" where
  "failed_message e =
     (case e of None \<Rightarrow> ''Chat request failed'' | Some m \<Rightarrow> or_else m ''Chat request failed'')"

text \<open>
  The \<open>for (const rawEvent of events)\<close> loop. The result is the value thrown, if any,
  and the messages as the updaters already applied have left them.
\<close>

fun process_events ::
  "json_parse \<Rightarrow> int \<Rightarrow> string list \<Rightarrow> ChatMessage list \<Rightarrow> thrown option \<times> ChatMessage list" where
  "process_events parse assistantIndex [] msgs = (None, msgs)"
| "process_events parse assistantIndex (rawEvent # rest) msgs =
     (case decode_event parse rawEvent of
        None \<Rightarrow> process_events parse assistantIndex rest msgs
      | Some (Chunk c) \<Rightarrow>
          process_events parse assistantIndex rest (append_chunk assistantIndex (or_else c []) msgs)
      | Some (Error e) \<Rightarrow>
          (Some (JsError (failed_message e)), msgs)
      | Some _ \<Rightarrow> process_events parse assistantIndex rest msgs)"

text \<open>
  The \<open>while (true)\<close> loop over \<open>reader.read()\<close>. The reads that deliver a value are the
  list; \<open>ending\<close> is \<open>None\<close> when the reader then reports \<open>done\<close> and \<open>Some t\<close> when the
  read rejects with \<open>t\<close>. The decoded text of each read is what the streaming
  \<open>TextDecoder\<close> returns for it. The buffer is returned with the result.
\<close>

fun read_loop ::
  "json_parse \<Rightarrow> int \<Rightarrow> string \<Rightarrow> string list \<Rightarrow> thrown option \<Rightarrow> ChatMessage list
     \<Rightarrow> thrown option \<times> string \<times> ChatMessage list" where
  "read_loop parse assistantIndex buffer [] ending msgs = (ending, buffer, msgs)"
| "read_loop parse assistantIndex buffer (v # reads) ending msgs =
     (let events = js_split [LF, LF] (buffer @ v);
          buffer' = (if events = [] then [] else or_else (last events) [])
      in case process_events parse assistantIndex (butlast events) msgs of
           (Some t, msgs') \<Rightarrow> (Some t, buffer', msgs')
         | (None, msgs') \<Rightarrow> read_loop parse assistantIndex buffer' reads ending msgs')"

subsection \<open>\<open>streamTransformerChat\<close> (\<open>ui/src/lib/api.ts\<close>)\<close>

record stream_body =
  body_reads :: "string list"
  body_ending :: "thrown option"

text \<open>
  What the page uses of a \<open>Response\<close>: \<open>json_detail\<close> is the \<open>detail\<close> field of the JSON
  body, \<open>None\<close> when \<open>response.json()\<close> throws or the field is absent; \<open>body\<close> is \<open>None\<close>
  when \<open>response.body\<close> is null.
\<close>

record http_response =
  ok :: bool
  statusText :: string
  json_detail :: "string option"
  body :: "stream_body option"

datatype fetch_result = FetchRejects thrown | Fetched http_response

definition streamTransformerChat :: "(string \<Rightarrow> fetch_result) \<Rightarrow> string \<Rightarrow> thrown + http_response" where
  "streamTransformerChat fetch message =
     (case fetch message of
        FetchRejects t \<Rightarrow> Inl t
      | Fetched response \<Rightarrow>
          if \<not> ok response
          then Inl (JsError (case json_detail response of
                               None \<Rightarrow> statusText response
                             | Some d \<Rightarrow> or_else d (statusText response)))
          else Inr response)"

subsection \<open>\<open>handleSend\<close>\<close>

text \<open>
  The page's state. \<open>posted\<close> is not React state: it records, in order, the messages
  posted to \<open>chat/stream\<close>.
\<close>

record page_state =
  messages :: "ChatMessage list"
  input :: string
  busy :: bool
  error :: "string option"
  posted :: "string list"

definition canSend :: "page_state \<Rightarrow> bool" where
  "canSend st \<longleftrightarrow> \<not> busy st \<and> length (js_trim (input st)) > 0"

text \<open>The synchronous part of \<open>handleSend\<close>, for a non-empty prompt, with \<open>assistantIndex\<close>.\<close>

definition send_begin :: "string \<Rightarrow> page_state \<Rightarrow> page_state \<times> int" where
  "send_begin prompt st =
     (let st1 = st\<lparr>busy := True, error := None\<rparr>;
          assistantIndex = int (length (messages st1)) + 1
      in (st1\<lparr>messages := messages st1 @
                  [\<lparr>role = User, content = prompt\<rparr>, \<lparr>role = Assistant, content = []\<rparr>],
               input := []\<rparr>,
          assistantIndex))"

text \<open>The \<open>try\<close> block.\<close>

definition try_stream ::
  "json_parse \<Rightarrow> (string \<Rightarrow> fetch_result) \<Rightarrow> int \<Rightarrow> string \<Rightarrow> ChatMessage list
     \<Rightarrow> thrown option \<times> ChatMessage list" where
  "try_stream parse fetch assistantIndex prompt msgs =
     (case streamTransformerChat fetch prompt of
        Inl t \<Rightarrow> (Some t, msgs)
      | Inr response \<Rightarrow>
          (case body response of
             None \<Rightarrow> (Some (JsError ''Streaming response not available''), msgs)
           | Some reader \<Rightarrow>
               (case read_loop parse assistantIndex [] (body_reads reader) (body_ending reader) msgs of
                  (t, buffer, msgs') \<Rightarrow> (t, msgs'))))"

text \<open>The \<open>catch\<close> block.\<close>

definition error_message :: "thrown \<Rightarrow> string" where
  "error_message streamError =
     (case streamError of JsError m \<Rightarrow> m | NotAnError \<Rightarrow> ''Failed to stream chat response'')"

definition mark_error :: "int \<Rightarrow> string \<Rightarrow> ChatMessage list \<Rightarrow> ChatMessage list" where
  "mark_error assistantIndex message current =
     (if assistantIndex \<ge> 0 \<and> nat assistantIndex < length current
         \<and> content (current ! nat assistantIndex) = []
      then current[nat assistantIndex :=
             (current ! nat assistantIndex)\<lparr>content := ''Error: '' @ message\<rparr>]
      else current)"

text \<open>\<open>catch\<close> and \<open>finally\<close>, applied to the outcome of the \<open>try\<close> block.\<close>

definition send_settle :: "int \<Rightarrow> thrown option \<times> ChatMessage list \<Rightarrow> page_state \<Rightarrow> page_state" where
  "send_settle assistantIndex outcome st =
     (case outcome of
        (None, msgs) \<Rightarrow> st\<lparr>messages := msgs, busy := False\<rparr>
      | (Some streamError, msgs) \<Rightarrow>
          st\<lparr>messages := mark_error assistantIndex (error_message streamError) msgs,
             error := Some (error_message streamError),
             busy := False\<rparr>)"

definition handleSend :: "json_parse \<Rightarrow> (string \<Rightarrow> fetch_result) \<Rightarrow> page_state \<Rightarrow> page_state" where
  "handleSend parse fetch st =
     (let prompt = js_trim (input st)
      in if prompt = [] then st
         else (case send_begin prompt st of
                 (st', assistantIndex) \<Rightarrow>
                   send_settle assistantIndex
                     (try_stream parse fetch assistantIndex prompt (messages st'))
                     (st'\<lparr>posted := posted st' @ [prompt]\<rparr>)))"


subsection \<open>The wire format of the chat channel\<close>

text \<open>
  A frame is a block of lines: it holds no blank line and does not end in a line feed.
  On the wire every frame is followed by a blank line.
\<close>

fun has_blank_line :: "string \<Rightarrow> bool" where
  "has_blank_line (a # b # cs) \<longleftrightarrow> (a = LF \<and> b = LF) \<or> has_blank_line (b # cs)"
| "has_blank_line _ \<longleftrightarrow> False"

definition sse_frame :: "string \<Rightarrow> bool" where
  "sse_frame f \<longleftrightarrow> \<not> has_blank_line (f @ [LF])"

definition sse_stream :: "string list \<Rightarrow> string" where
  "sse_stream frames = concat (map (\<lambda>f. f @ [LF, LF]) frames)"

text \<open>A fetch that answers every message with status 200 and the given streamed body.\<close>

definition streaming :: "string list \<Rightarrow> thrown option \<Rightarrow> string \<Rightarrow> fetch_result" where
  "streaming rs e message =
     Fetched \<lparr>ok = True, statusText = ''OK'', json_detail = None,
              body = Some \<lparr>body_reads = rs, body_ending = e\<rparr>\<rparr>"

text \<open>
  What a sequence of frames carries: the events of the frames that decode, the text of
  the chunks that precede the first \<open>error\<close> event, and the failure of the exchange
  (the first \<open>error\<close> event, or else the way the reads ended).
\<close>

fun is_error_event :: "StreamEvent \<Rightarrow> bool" where
  "is_error_event (Error e) \<longleftrightarrow> True"
| "is_error_event _ \<longleftrightarrow> False"

fun chunk_of :: "StreamEvent \<Rightarrow> string" where
  "chunk_of (Chunk c) = c"
| "chunk_of _ = []"

definition frame_events :: "json_parse \<Rightarrow> string list \<Rightarrow> StreamEvent list" where
  "frame_events parse frames = List.map_filter (decode_event parse) frames"

definition received :: "json_parse \<Rightarrow> string list \<Rightarrow> string" where
  "received parse frames =
     concat (map chunk_of (takeWhile (\<lambda>e. \<not> is_error_event e) (frame_events parse frames)))"

definition stream_failure :: "json_parse \<Rightarrow> string list \<Rightarrow> thrown option \<Rightarrow> thrown option" where
  "stream_failure parse frames ending =
     (case List.find is_error_event (frame_events parse frames) of
        Some (Error e) \<Rightarrow> Some (JsError (failed_message e))
      | _ \<Rightarrow> ending)"



text \<open>
  The page after a send of \<open>prompt\<close> that failed with the message \<open>msg\<close> when the chunks
  appended so far made up \<open>got\<close>: the user message and the assistant message are there,
  the assistant message holding \<open>got\<close>, or the marker when \<open>got\<close> is empty; the message is
  shown, the prompt was posted once, the input is empty and the page is not busy.
\<close>

definition left_visible :: "page_state \<Rightarrow> string \<Rightarrow> string \<Rightarrow> string \<Rightarrow> page_state" where
  "left_visible st prompt got msg =
     st\<lparr>messages := messages st @
          [\<lparr>role = User, content = prompt\<rparr>,
           \<lparr>role = Assistant, content = (if got = [] then ''Error: '' @ msg else got)\<rparr>],
        input := [], busy := False, error := Some msg,
        posted := posted st @ [prompt]\<rparr>"

subsection \<open>The page as a transition system\<close>

text \<open>
  The handlers run to their first \<open>await\<close> without interruption and the page is rendered
  again before the next event is dispatched, so every event sees the current \<open>busy\<close> and
  \<open>input\<close>. \<open>in_flight\<close> lists the \<open>assistantIndex\<close> of every call of \<open>handleSend\<close> that
  has posted its request and not yet reached \<open>finally\<close>.
\<close>

record ui_state =
  page :: page_state
  in_flight :: "int list"

datatype ui_event =
    Change string
  | KeyDown string
  | Click
  | StreamChunk nat string
  | StreamEnd nat "thrown option"
  | ClearHistory

definition start_send :: "ui_state \<Rightarrow> ui_state" where
  "start_send u =
     (let prompt = js_trim (input (page u))
      in if prompt = [] then u
         else (case send_begin prompt (page u) of
                 (st', assistantIndex) \<Rightarrow>
                   \<lparr>page = st'\<lparr>posted := posted st' @ [prompt]\<rparr>,
                    in_flight = in_flight u @ [assistantIndex]\<rparr>))"

text \<open>
  \<open>Change\<close>: the input element is \<open>disabled={busy}\<close>. \<open>KeyDown\<close>: \<open>handleInputKeyDown\<close>.
  \<open>Click\<close>: the send button is \<open>disabled={!canSend}\<close>. \<open>StreamChunk k c\<close> and
  \<open>StreamEnd k t\<close>: the \<open>k\<close>-th call in flight receives a chunk, or leaves its \<open>try\<close> block
  with \<open>t\<close> thrown or nothing thrown.
\<close>

fun ui_step :: "ui_state \<Rightarrow> ui_event \<Rightarrow> ui_state" where
  "ui_step u (Change s) = (if busy (page u) then u else u\<lparr>page := (page u)\<lparr>input := s\<rparr>\<rparr>)"
| "ui_step u (KeyDown k) =
     (if k \<noteq> ''Enter'' then u else if \<not> canSend (page u) then u else start_send u)"
| "ui_step u Click = (if \<not> canSend (page u) then u else start_send u)"
| "ui_step u (StreamChunk k c) =
     (if k < length (in_flight u)
      then u\<lparr>page := (page u)\<lparr>messages :=
                 append_chunk (in_flight u ! k) (or_else c []) (messages (page u))\<rparr>\<rparr>
      else u)"
| "ui_step u (StreamEnd k t) =
     (if k < length (in_flight u)
      then \<lparr>page = send_settle (in_flight u ! k) (t, messages (page u)) (page u),
            in_flight = take k (in_flight u) @ drop (Suc k) (in_flight u)\<rparr>
      else u)"
| "ui_step u ClearHistory = u\<lparr>page := (page u)\<lparr>messages := [], error := None\<rparr>\<rparr>"

text \<open>The page as it is mounted, with the history \<open>msgs\<close> read from local storage.\<close>

definition mounted :: "ChatMessage list \<Rightarrow> ui_state" where
  "mounted msgs =
     \<lparr>page = \<lparr>messages = msgs, input = [], busy = False, error = None, posted = []\<rparr>,
      in_flight = []\<rparr>"

text \<open>At most one call in flight, and \<open>busy\<close> exactly while there is one.\<close>

definition one_at_most :: "ui_state \<Rightarrow> bool" where
  "one_at_most u \<longleftrightarrow> length (in_flight u) \<le> 1 \<and> (busy (page u) \<longleftrightarrow> in_flight u \<noteq> [])"

section \<open>The rule editor (\<open>RuleEditor\<close>)\<close>

record MappingRow =
  row_key :: string
  row_value :: string

text \<open>
  The values of a saved rule. \<open>Number(...)\<close> and \<open>String(...)\<close> on numbers are the
  platform's: the type \<open>'n\<close> of numbers and the conversions are parameters.
\<close>

datatype 'n jsval = JStr string | JNum 'n | JBool bool

record 'n number_ops =
  to_number :: "string \<Rightarrow> 'n"
  number_zero :: 'n
  number_to_string :: "'n \<Rightarrow> string"

text \<open>What \<open>onSave\<close> receives: a plain object, or \<open>{ _default, conditions }\<close>.\<close>

datatype 'n payload =
    RuleObject "string \<rightharpoonup> 'n jsval"
  | ConditionalRule "'n jsval" "string \<rightharpoonup> 'n jsval"

record editor_state =
  rows :: "MappingRow list"
  defaultValue :: string
  saving :: bool
  save_error :: "string option"

definition isMappingRule :: "string \<Rightarrow> bool" where
  "isMappingRule ruleType \<longleftrightarrow> ruleType = ''customerNameMapping''"

definition isConfigRule :: "string \<Rightarrow> bool" where
  "isConfigRule ruleType \<longleftrightarrow> ruleType = ''customerReference'' \<or> ruleType = ''paymentReference''"

definition isNumericConditional :: "string \<Rightarrow> bool" where
  "isNumericConditional ruleType \<longleftrightarrow> ruleType = ''deliveryDays''"

text \<open>
  The accumulator of the \<open>reduce\<close> is the object literal \<open>{}\<close>, so \<open>acc[key]\<close> also
  finds what \<open>Object.prototype\<close> provides.
\<close>

definition object_prototype_keys :: "string list" where
  "object_prototype_keys =
     [''constructor'', ''__defineGetter__'', ''__defineSetter__'', ''hasOwnProperty'',
      ''__lookupGetter__'', ''__lookupSetter__'', ''isPrototypeOf'', ''propertyIsEnumerable'',
      ''toString'', ''valueOf'', ''__proto__'', ''toLocaleString'']"

text \<open>\<open>acc[key] !== undefined\<close>.\<close>

definition is_defined :: "(string \<rightharpoonup> 'n jsval) \<Rightarrow> string \<Rightarrow> bool" where
  "is_defined acc k \<longleftrightarrow> acc k \<noteq> None \<or> k \<in> set object_prototype_keys"

text \<open>\<open>acc[key] = v\<close>: assigning a primitive to \<open>__proto__\<close> changes nothing.\<close>

definition assign :: "(string \<rightharpoonup> 'n jsval) \<Rightarrow> string \<Rightarrow> 'n jsval \<Rightarrow> (string \<rightharpoonup> 'n jsval)" where
  "assign acc k v = (if k = ''__proto__'' then acc else acc(k \<mapsto> v))"

text \<open>\<open>duplicateKeys.add(key)\<close> on a \<open>Set\<close>, kept in insertion order.\<close>

definition set_add :: "string list \<Rightarrow> string \<Rightarrow> string list" where
  "set_add ks k = (if k \<in> set ks then ks else ks @ [k])"

text \<open>One step of \<open>rows.reduce\<close>, carrying \<open>duplicateKeys\<close> along.\<close>

definition add_row ::
  "'n number_ops \<Rightarrow> string \<Rightarrow> (string \<rightharpoonup> 'n jsval) \<times> string list \<Rightarrow> MappingRow
     \<Rightarrow> (string \<rightharpoonup> 'n jsval) \<times> string list" where
  "add_row ops ruleType state row =
     (case state of
        (acc, duplicateKeys) \<Rightarrow>
          (let key = js_trim (row_key row);
               val = js_trim (row_value row)
           in if key = [] \<or> val = [] then (acc, duplicateKeys)
              else (assign acc key
                      (if isNumericConditional ruleType then JNum (to_number ops val) else JStr val),
                    if is_defined acc key then set_add duplicateKeys key else duplicateKeys)))"

definition builtRows ::
  "'n number_ops \<Rightarrow> string \<Rightarrow> MappingRow list \<Rightarrow> (string \<rightharpoonup> 'n jsval) \<times> string list" where
  "builtRows ops ruleType rs = foldl (add_row ops ruleType) (Map.empty, []) rs"

text \<open>\<open>toLowerCase\<close> on the model's alphabet.\<close>

definition to_lower_char :: "char \<Rightarrow> char" where
  "to_lower_char c =
     (let n = (of_char c :: nat)
      in if (65 \<le> n \<and> n \<le> 90) \<or> (192 \<le> n \<and> n \<le> 222 \<and> n \<noteq> 215)
         then char_of (n + 32) else c)"

fun js_Number :: "'n number_ops \<Rightarrow> 'n jsval \<Rightarrow> 'n jsval" where
  "js_Number ops (JStr s) = JNum (to_number ops s)"
| "js_Number ops (JNum n) = JNum n"
| "js_Number ops (JBool b) = JBool b"

fun js_String :: "'n number_ops \<Rightarrow> 'n jsval \<Rightarrow> string" where
  "js_String ops (JStr s) = s"
| "js_String ops (JNum n) = number_to_string ops n"
| "js_String ops (JBool b) = (if b then ''true'' else ''false'')"

text \<open>The body of the \<open>reduce\<close> over \<open>Object.entries(builtRows)\<close> for a config rule.\<close>

definition config_value :: "'n number_ops \<Rightarrow> string \<Rightarrow> 'n jsval \<Rightarrow> 'n jsval" where
  "config_value ops k v =
     (if k \<in> set [''customerNamePrefixLength'', ''invoiceIdPadLength''] then js_Number ops v
      else if k \<in> set [''includeYear'', ''useInvoiceTotalWithoutDecimals'']
      then JBool (map to_lower_char (js_String ops v) = ''true'')
      else JStr (js_String ops v))"

definition save_payload ::
  "'n number_ops \<Rightarrow> string \<Rightarrow> string \<Rightarrow> (string \<rightharpoonup> 'n jsval) \<Rightarrow> 'n payload" where
  "save_payload ops ruleType dflt built =
     (if isMappingRule ruleType then RuleObject built
      else if isConfigRule ruleType
      then RuleObject (\<lambda>k. map_option (config_value ops k) (built k))
      else ConditionalRule
             (if isNumericConditional ruleType
              then JNum (if dflt = [] then number_zero ops else to_number ops dflt)
              else JStr dflt)
             built)"

text \<open>
  \<open>save\<close>. \<open>onSave\<close> answers \<open>None\<close> when its promise resolves and \<open>Some t\<close> when it rejects
  with \<open>t\<close>. The second component of the result lists the payloads \<open>onSave\<close> was called
  with.
\<close>

definition save ::
  "'n number_ops \<Rightarrow> string \<Rightarrow> ('n payload \<Rightarrow> thrown option) \<Rightarrow> editor_state
     \<Rightarrow> editor_state \<times> 'n payload list" where
  "save ops ruleType onSave st =
     (case builtRows ops ruleType (rows st) of
        (built, duplicateKeys) \<Rightarrow>
          if duplicateKeys \<noteq> []
          then (st\<lparr>save_error := Some (''Duplicate keys: '' @ js_join '', '' duplicateKeys),
                   saving := False\<rparr>, [])
          else (let payload = save_payload ops ruleType (defaultValue st) built
                in case onSave payload of
                     None \<Rightarrow> (st\<lparr>save_error := None, saving := False\<rparr>, [payload])
                   | Some saveError \<Rightarrow>
                       (st\<lparr>save_error :=
                             Some (case saveError of JsError m \<Rightarrow> m
                                                   | NotAnError \<Rightarrow> ''Failed to save rule''),
                           saving := False\<rparr>, [payload])))"

text \<open>The conditions of a payload: the object itself, or its \<open>conditions\<close> field.\<close>

fun payload_conditions :: "'n payload \<Rightarrow> (string \<rightharpoonup> 'n jsval)" where
  "payload_conditions (RuleObject m) = m"
| "payload_conditions (ConditionalRule d m) = m"

text \<open>An \<open>onSave\<close> whose promise always resolves.\<close>

definition always_resolves :: "'n payload \<Rightarrow> thrown option" where
  "always_resolves p = None"

text \<open>A row that the \<open>reduce\<close> keeps: key and value are not empty once trimmed.\<close>

definition kept :: "MappingRow \<Rightarrow> bool" where
  "kept row \<longleftrightarrow> js_trim (row_key row) \<noteq> [] \<and> js_trim (row_value row) \<noteq> []"

section \<open>The readiness gate\<close>

record 'c SchemaStore =
  erp_schema :: "(string \<times> 'c) list"
  crm_columns :: "string list"
  notification_emails :: "string list"

record SchemaStoreStatus =
  erp_columns_count :: nat
  crm_columns_count :: nat
  notification_emails_count :: nat
  can_use_chat :: bool

text \<open>
  Modelled from the spec: the function behind \<open>GET schema-store/status\<close> is not among the
  sources. The three counts are the numbers of ERP columns (the keys of \<open>erp_schema\<close>),
  of CRM columns and of notification emails, and \<open>can_use_chat\<close> is true iff all three
  counts are at least 1.
\<close>

definition status :: "'c SchemaStore \<Rightarrow> SchemaStoreStatus" where
  "status schema =
     (let erp = length (remdups (map fst (erp_schema schema)));
          crm = length (crm_columns schema);
          emails = length (notification_emails schema)
      in \<lparr>erp_columns_count = erp, crm_columns_count = crm, notification_emails_count = emails,
          can_use_chat = (erp \<ge> 1 \<and> crm \<ge> 1 \<and> emails \<ge> 1)\<rparr>)"

section \<open>The rule-mutation endpoint\<close>

record 'j RulesAIChange =
  path :: string
  before :: 'j
  after :: 'j

record ('r, 'j) RulesAIUpdateResponse =
  applied :: bool
  summary :: string
  changes :: "'j RulesAIChange list"
  updated_rules :: 'r

text \<open>
  Modelled from the spec: the handler of \<open>POST rules/ai/update\<close> is not among the sources.
  The translation of an instruction (instruction and current rules to summary, changes
  and proposed rules) is an opaque function. With \<open>apply = false\<close> the response is the
  proposal and the rule store is left untouched; with \<open>apply = true\<close> the same response
  is returned and the store is replaced by \<open>updated_rules\<close>.
\<close>

definition rules_ai_update ::
  "(string \<Rightarrow> 'r \<Rightarrow> string \<times> 'j RulesAIChange list \<times> 'r) \<Rightarrow> string \<Rightarrow> bool \<Rightarrow> 'r
     \<Rightarrow> ('r, 'j) RulesAIUpdateResponse \<times> 'r" where
  "rules_ai_update translate instruction apply store =
     (case translate instruction store of
        (s, cs, proposed) \<Rightarrow>
          (\<lparr>applied = apply, summary = s, changes = cs, updated_rules = proposed\<rparr>,
           if apply then proposed else store))"

text \<open>\<open>previewRulesAIUpdate\<close> and \<open>getRules\<close> of \<open>ui/src/lib/api.ts\<close>, against that endpoint.\<close>

definition previewRulesAIUpdate ::
  "(string \<Rightarrow> 'r \<Rightarrow> string \<times> 'j RulesAIChange list \<times> 'r) \<Rightarrow> string \<Rightarrow> 'r
     \<Rightarrow> ('r, 'j) RulesAIUpdateResponse \<times> 'r" where
  "previewRulesAIUpdate translate instruction store =
     rules_ai_update translate instruction False store"

definition getRules :: "'r \<Rightarrow> 'r" where
  "getRules store = store"


section \<open>Example instances of the platform parameters\<close>

text \<open>
  A stand-in for \<open>JSON.parse\<close> on a small payload syntax: \<open>start\<close>, \<open>done\<close>,
  \<open>chunk(text)\<close> and \<open>error(text)\<close>; anything else is rejected.
\<close>

definition example_parse :: json_parse where
  "example_parse p =
     (if p = ''start'' then Some Start
      else if p = ''done'' then Some Done
      else if prefix ''chunk('' p \<and> suffix '')'' p then Some (Chunk (butlast (drop 6 p)))
      else if prefix ''error('' p \<and> suffix '')'' p then Some (Error (Some (butlast (drop 6 p))))
      else None)"

text \<open>A stand-in for the number conversions, on numbers written as runs of \<open>1\<close>.\<close>

definition example_ops :: "nat number_ops" where
  "example_ops =
     \<lparr>to_number = length, number_zero = 0, number_to_string = (\<lambda>n. replicate n (CHR ''1''))\<rparr>"

section \<open>Properties of \<open>split\<close> and \<open>join\<close>\<close>

lemma js_split_prefix:
  "sep \<noteq> [] \<Longrightarrow> prefix sep s \<Longrightarrow> js_split sep s = [] # js_split sep (drop (length sep) s)"
  by (subst js_split.simps) simp

lemma js_split_Nil: "sep \<noteq> [] \<Longrightarrow> js_split sep [] = [[]]"
  by (subst js_split.simps) simp

lemma js_split_Cons:
  "sep \<noteq> [] \<Longrightarrow> \<not> prefix sep (c # cs) \<Longrightarrow> js_split sep (c # cs) = cons_first c (js_split sep cs)"
  by (subst js_split.simps) simp

lemma js_split_nonempty: "sep \<noteq> [] \<Longrightarrow> js_split sep s \<noteq> []"
proof (induction sep s rule: js_split.induct)
  case (1 sep s)
  note ne = \<open>sep \<noteq> []\<close>
  show ?case
  proof (cases "prefix sep s")
    case True
    from ne True have "js_split sep s = [] # js_split sep (drop (length sep) s)"
      by (rule js_split_prefix)
    then show ?thesis by simp
  next
    case False
    show ?thesis
    proof (cases s)
      case Nil
      with ne show ?thesis by (simp add: js_split_Nil)
    next
      case (Cons c cs)
      from ne False Cons have E: "js_split sep s = cons_first c (js_split sep cs)"
        by (simp add: js_split_Cons)
      show ?thesis unfolding E by (cases "js_split sep cs") simp_all
    qed
  qed
qed

lemma js_split_short: "length s < length sep \<Longrightarrow> js_split sep s = [s]"
proof (induction s)
  case Nil
  then show ?case by (simp add: js_split_Nil)
next
  case (Cons c cs)
  then have np: "\<not> prefix sep (c # cs)" by (auto dest: prefix_length_le)
  from Cons have ne: "sep \<noteq> []" by auto
  from Cons have "js_split sep cs = [cs]" by simp
  with js_split_Cons [OF ne np] show ?case by simp
qed

lemma prefix_straddle:
  assumes "prefix sep (s @ t)" "\<not> prefix sep s"
  shows "length s < length sep"
proof (rule ccontr)
  assume "\<not> length s < length sep"
  then have "length sep \<le> length s" by simp
  with assms(1) have "prefix sep s"
    using prefix_length_prefix [of sep "s @ t" s] by simp
  with assms(2) show False by simp
qed

lemma js_join_cons_first:
  "ps \<noteq> [] \<Longrightarrow> js_join sep (cons_first c ps) = c # js_join sep ps"
proof (cases ps)
  case Nil
  then show ?thesis by simp
next
  case (Cons p qs)
  then show ?thesis by (cases qs) simp_all
qed

lemma js_join_split: "sep \<noteq> [] \<Longrightarrow> js_join sep (js_split sep s) = s"
proof (induction sep s rule: js_split.induct)
  case (1 sep s)
  note ne = \<open>sep \<noteq> []\<close>
  show ?case
  proof (cases "prefix sep s")
    case True
    have E: "js_split sep s = [] # js_split sep (drop (length sep) s)"
      using ne True by (rule js_split_prefix)
    have IH: "js_join sep (js_split sep (drop (length sep) s)) = drop (length sep) s"
      using 1 True by blast
    obtain p ps where P: "js_split sep (drop (length sep) s) = p # ps"
      using js_split_nonempty [OF ne, of "drop (length sep) s"]
      by (cases "js_split sep (drop (length sep) s)") auto
    have "js_join sep (js_split sep s) = sep @ drop (length sep) s"
      unfolding E using IH unfolding P by simp
    also have "\<dots> = s" using True by (auto simp: prefix_def)
    finally show ?thesis .
  next
    case False
    show ?thesis
    proof (cases s)
      case Nil
      with ne show ?thesis by (simp add: js_split_Nil)
    next
      case (Cons c cs)
      from ne False Cons have E: "js_split sep s = cons_first c (js_split sep cs)"
        by (simp add: js_split_Cons)
      have IH: "js_join sep (js_split sep cs) = cs" using 1 False Cons by blast
      show ?thesis unfolding E
        using js_join_cons_first [OF js_split_nonempty [OF ne], of sep c cs] IH Cons by simp
    qed
  qed
qed

lemma js_split_single: "sep \<noteq> [] \<Longrightarrow> js_split sep s = [p] \<Longrightarrow> p = s"
  using js_join_split [of sep s] by simp

lemma js_split_append:
  "sep \<noteq> [] \<Longrightarrow>
     js_split sep (s @ t) = butlast (js_split sep s) @ js_split sep (last (js_split sep s) @ t)"
proof (induction sep s rule: js_split.induct)
  case (1 sep s)
  note ne = \<open>sep \<noteq> []\<close>
  show ?case
  proof (cases "prefix sep s")
    case True
    then have len: "length sep \<le> length s" by (rule prefix_length_le)
    from True have pst: "prefix sep (s @ t)" by (rule prefix_prefix)
    have IH: "js_split sep (drop (length sep) s @ t) =
        butlast (js_split sep (drop (length sep) s)) @
        js_split sep (last (js_split sep (drop (length sep) s)) @ t)"
      using 1 True by blast
    have X: "js_split sep (drop (length sep) s) \<noteq> []" using ne by (rule js_split_nonempty)
    have E1: "js_split sep s = [] # js_split sep (drop (length sep) s)"
      using ne True by (rule js_split_prefix)
    have E2: "js_split sep (s @ t) = [] # js_split sep (drop (length sep) s @ t)"
      using js_split_prefix [OF ne pst] len by simp
    show ?thesis unfolding E1 E2 using IH X by simp
  next
    case False
    show ?thesis
    proof (cases s)
      case Nil
      with ne show ?thesis by (simp add: js_split_Nil)
    next
      case (Cons c cs)
      show ?thesis
      proof (cases "prefix sep (s @ t)")
        case True
        with False have "length s < length sep" by (rule prefix_straddle[rotated])
        then show ?thesis by (simp add: js_split_short)
      next
        case np: False
        have IH: "js_split sep (cs @ t) =
          butlast (js_split sep cs) @ js_split sep (last (js_split sep cs) @ t)"
          using 1 False Cons by blast
        obtain p ps where P: "js_split sep cs = p # ps"
          using js_split_nonempty [OF ne, of cs] by (cases "js_split sep cs") auto
        have L: "js_split sep (s @ t) = cons_first c (js_split sep (cs @ t))"
          using np Cons js_split_Cons [OF ne, of c "cs @ t"] by simp
        have R: "js_split sep s = (c # p) # ps"
          using False Cons js_split_Cons [OF ne, of c cs] P by simp
        show ?thesis
        proof (cases ps)
          case Nil
          with P have "p = cs" using js_split_single [OF ne] by blast
          with Nil P have Q: "js_split sep cs = [cs]" by simp
          show ?thesis unfolding R L using Nil \<open>p = cs\<close> Cons L by simp
        next
          case (Cons q qs)
          have Y: "js_split sep (last (q # qs) @ t) \<noteq> []" using ne by (rule js_split_nonempty)
          show ?thesis unfolding L R IH P Cons using Y
            by (cases "butlast (q # qs) @ js_split sep (last (q # qs) @ t)") auto
        qed
      qed
    qed
  qed
qed


lemma js_split_last_piece:
  assumes ne: "sep \<noteq> []"
  shows "js_split sep (last (js_split sep s)) = [last (js_split sep s)]"
proof -
  have X: "js_split sep s \<noteq> []" using ne by (rule js_split_nonempty)
  have "js_split sep s = butlast (js_split sep s) @ js_split sep (last (js_split sep s))"
    using js_split_append [OF ne, of s "[]"] by simp
  moreover have "js_split sep s = butlast (js_split sep s) @ [last (js_split sep s)]"
    using X by simp
  ultimately have "butlast (js_split sep s) @ js_split sep (last (js_split sep s))
      = butlast (js_split sep s) @ [last (js_split sep s)]" by simp
  then show ?thesis by (simp only: same_append_eq)
qed

lemma append_chunk_empty: "append_chunk i [] msgs = msgs"
  by (simp add: append_chunk_def)

lemma append_chunk_twice:
  "append_chunk i c (append_chunk i x msgs) = append_chunk i (x @ c) msgs"
  by (simp add: append_chunk_def)

lemma process_events_append:
  "process_events parse i (xs @ ys) msgs =
     (case process_events parse i xs msgs of
        (Some t, m) \<Rightarrow> (Some t, m)
      | (None, m) \<Rightarrow> process_events parse i ys m)"
proof (induction xs arbitrary: msgs)
  case Nil
  then show ?case by simp
next
  case (Cons x xs)
  show ?case
  proof (cases "decode_event parse x")
    case None
    then show ?thesis using Cons by simp
  next
    case (Some ev)
    then show ?thesis using Cons by (cases ev) simp_all
  qed
qed

lemma process_events_spec:
  "process_events parse i frames msgs =
     (stream_failure parse frames None, append_chunk i (received parse frames) msgs)"
proof (induction frames arbitrary: msgs)
  case Nil
  then show ?case
    by (simp add: stream_failure_def received_def frame_events_def List.map_filter_simps append_chunk_empty)
next
  case (Cons x xs)
  show ?case
  proof (cases "decode_event parse x")
    case None
    then show ?thesis using Cons [of msgs]
      by (simp add: stream_failure_def received_def frame_events_def List.map_filter_simps)
  next
    case (Some ev)
    then show ?thesis using Cons [of msgs] Cons [of "append_chunk i (chunk_of ev) msgs"]
      by (cases ev)
        (simp_all add: stream_failure_def received_def frame_events_def List.map_filter_simps
          append_chunk_empty append_chunk_twice or_else_def)
  qed
qed


lemma read_loop_process:
  assumes "js_split [LF, LF] b = [b]"
  shows "case process_events parse i (butlast (js_split [LF, LF] (b @ concat rs))) msgs of
           (None, m) \<Rightarrow>
             read_loop parse i b rs e msgs = (e, last (js_split [LF, LF] (b @ concat rs)), m)
         | (Some t, m) \<Rightarrow> (\<exists>buf. read_loop parse i b rs e msgs = (Some t, buf, m))"
  using assms
proof (induction rs arbitrary: b msgs)
  case Nil
  then show ?case by simp
next
  case (Cons r rs)
  define E where "E = js_split [LF, LF] (b @ r)"
  define b' where "b' = last E"
  define E' where "E' = js_split [LF, LF] (b' @ concat rs)"
  have ne: "[LF, LF] \<noteq> []" by simp
  have E_ne: "E \<noteq> []" unfolding E_def using ne by (rule js_split_nonempty)
  have E'_ne: "E' \<noteq> []" unfolding E'_def using ne by (rule js_split_nonempty)
  have b'_single: "js_split [LF, LF] b' = [b']"
    unfolding b'_def E_def using ne by (rule js_split_last_piece)
  have whole: "js_split [LF, LF] (b @ concat (r # rs)) = butlast E @ E'"
    using js_split_append [OF ne, of "b @ r" "concat rs"] by (simp add: E_def E'_def b'_def)
  have bl: "butlast (js_split [LF, LF] (b @ concat (r # rs))) = butlast E @ butlast E'"
    unfolding whole using E'_ne by (simp add: butlast_append)
  have la: "last (js_split [LF, LF] (b @ concat (r # rs))) = last E'"
    unfolding whole using E'_ne by simp
  have step: "read_loop parse i b (r # rs) e msgs =
      (case process_events parse i (butlast E) msgs of
         (Some t, m) \<Rightarrow> (Some t, b', m)
       | (None, m) \<Rightarrow> read_loop parse i b' rs e m)"
    using E_ne
    by (simp add: E_def [symmetric] b'_def or_else_def Let_def
          split: prod.splits option.splits)
  obtain f m where P: "process_events parse i (butlast E) msgs = (f, m)"
    by (cases "process_events parse i (butlast E) msgs")
  show ?case
  proof (cases f)
    case (Some t)
    show ?thesis unfolding bl process_events_append step P Some by simp
  next
    case None
    have IH: "case process_events parse i (butlast E') m of
           (None, m') \<Rightarrow> read_loop parse i b' rs e m = (e, last E', m')
         | (Some t, m') \<Rightarrow> (\<exists>buf. read_loop parse i b' rs e m = (Some t, buf, m'))"
      using Cons.IH [OF b'_single, of m] unfolding E'_def .
    show ?thesis unfolding bl la process_events_append step P None using IH
      by (simp split: prod.splits option.splits)
  qed
qed

lemma no_blank_line_tail: "\<not> has_blank_line (c # s) \<Longrightarrow> \<not> has_blank_line s"
  by (cases s) auto

lemma no_blank_line_single: "\<not> has_blank_line s \<Longrightarrow> js_split [LF, LF] s = [s]"
proof (induction s)
  case Nil
  show ?case by (simp add: js_split_Nil)
next
  case (Cons c cs)
  from Cons.prems have "\<not> has_blank_line cs" by (rule no_blank_line_tail)
  with Cons.IH have IH: "js_split [LF, LF] cs = [cs]" .
  have np: "\<not> prefix [LF, LF] (c # cs)" using Cons.prems by (cases cs) auto
  from js_split_Cons [OF _ np] IH show ?case by simp
qed

lemma js_split_frame:
  "sse_frame f \<Longrightarrow> js_split [LF, LF] (f @ [LF, LF] @ t) = f # js_split [LF, LF] t"
proof (induction f)
  case Nil
  have "prefix [LF, LF] ([] @ [LF, LF] @ t)" by simp
  from js_split_prefix [OF _ this] show ?case by simp
next
  case (Cons c cs)
  from Cons.prems have nb: "\<not> has_blank_line (c # cs @ [LF])" by (simp add: sse_frame_def)
  then have "sse_frame cs" unfolding sse_frame_def by (rule no_blank_line_tail)
  with Cons.IH have IH: "js_split [LF, LF] (cs @ [LF, LF] @ t) = cs # js_split [LF, LF] t" .
  have np: "\<not> prefix [LF, LF] (c # (cs @ [LF, LF] @ t))"
    using nb by (cases cs) auto
  from js_split_Cons [OF _ np] IH show ?case by simp
qed

lemma js_split_sse_stream:
  assumes "\<forall>f\<in>set frames. sse_frame f" "\<not> has_blank_line partial"
  shows "js_split [LF, LF] (sse_stream frames @ partial) = frames @ [partial]"
  using assms(1)
proof (induction frames)
  case Nil
  show ?case using no_blank_line_single [OF assms(2)] by (simp add: sse_stream_def)
next
  case (Cons f fs)
  then have f: "sse_frame f" and IH: "js_split [LF, LF] (sse_stream fs @ partial) = fs @ [partial]"
    by simp_all
  have "sse_stream (f # fs) @ partial = f @ [LF, LF] @ (sse_stream fs @ partial)"
    by (simp add: sse_stream_def)
  then show ?case using js_split_frame [OF f, of "sse_stream fs @ partial"] IH by simp
qed

lemma read_loop_sse:
  assumes "\<forall>f\<in>set frames. sse_frame f" "\<not> has_blank_line partial"
    and "concat rs = sse_stream frames @ partial"
  shows "\<exists>buf. read_loop parse i [] rs e msgs =
           (stream_failure parse frames e, buf, append_chunk i (received parse frames) msgs)
         \<and> (stream_failure parse frames None = None \<longrightarrow> buf = partial)"
proof -
  have S: "js_split [LF, LF] ([] @ concat rs) = frames @ [partial]"
    using js_split_sse_stream [OF assms(1,2)] assms(3) by simp
  have B: "js_split [LF, LF] [] = [[]]" by (simp add: js_split_Nil)
  have SF: "stream_failure parse frames e =
     (case stream_failure parse frames None of Some t \<Rightarrow> Some t | None \<Rightarrow> e)"
    by (simp add: stream_failure_def split: option.splits StreamEvent.splits)
  show ?thesis
    using read_loop_process [OF B, where parse = parse and i = i and rs = rs and msgs = msgs and e = e]
    unfolding S
    by (auto simp: process_events_spec SF split: option.splits)
qed

section \<open>The readiness gate and the rule-mutation endpoint\<close>

text \<open>
  C2: the readiness status holds the three counts and \<open>can_use_chat\<close>, and
  \<open>can_use_chat\<close> is true if and only if all three counts are at least 1; with one ERP
  column and nothing else it is false, with one of each it is true.
\<close>

theorem status_can_use_chat:
  "(can_use_chat (status schema) \<longleftrightarrow>
      erp_columns_count (status schema) \<ge> 1 \<and> crm_columns_count (status schema) \<ge> 1
      \<and> notification_emails_count (status schema) \<ge> 1)
   \<and> erp_columns_count (status schema) = length (remdups (map fst (erp_schema schema)))
   \<and> crm_columns_count (status schema) = length (crm_columns schema)
   \<and> notification_emails_count (status schema) = length (notification_emails schema)"
  by (simp add: status_def Let_def)

theorem status_can_use_chat_witness:
  "\<not> can_use_chat (status \<lparr>erp_schema = [(''invoice_no'', ())], crm_columns = [],
                             notification_emails = []\<rparr>)
   \<and> can_use_chat (status \<lparr>erp_schema = [(''invoice_no'', ())], crm_columns = [''customer''],
                             notification_emails = [''ops@example.com'']\<rparr>)"
  using status_can_use_chat [of "\<lparr>erp_schema = [(''invoice_no'', ())], crm_columns = [],
                             notification_emails = []\<rparr>"]
    status_can_use_chat [of "\<lparr>erp_schema = [(''invoice_no'', ())], crm_columns = [''customer''],
                             notification_emails = [''ops@example.com'']\<rparr>"]
  by simp

text \<open>
  C3: a call of the rule-mutation endpoint with \<open>apply = false\<close> returns the proposal
  (summary, changes and the proposed rules) and leaves the stored rule set as it was:
  reading the rules afterwards gives what reading them before gave, whatever the
  instruction and the changes returned.
\<close>

theorem preview_leaves_rules_unchanged:
  "getRules (snd (previewRulesAIUpdate translate instruction store)) = getRules store
   \<and> getRules (snd (rules_ai_update translate instruction False store)) = getRules store
   \<and> fst (previewRulesAIUpdate translate instruction store) =
       \<lparr>applied = False, summary = fst (translate instruction store),
        changes = fst (snd (translate instruction store)),
        updated_rules = snd (snd (translate instruction store))\<rparr>"
  by (simp add: previewRulesAIUpdate_def rules_ai_update_def getRules_def split: prod.splits)

theorem preview_leaves_rules_unchanged_witness:
  "getRules (snd (previewRulesAIUpdate
      (\<lambda>i r. (''set tax'', [\<lparr>path = ''salesTaxRate._default'', before = (5::nat), after = 7\<rparr>], 7))
      ''raise the tax rate'' (5::nat))) = 5"
  using preview_leaves_rules_unchanged
    [of "\<lambda>i r. (''set tax'', [\<lparr>path = ''salesTaxRate._default'', before = (5::nat), after = 7\<rparr>], 7)"
        "''raise the tax rate''" "5::nat"]
  by (simp add: getRules_def)

section \<open>The chat stream\<close>

lemma no_error_received:
  assumes "\<forall>ev\<in>set (frame_events parse frames). \<not> is_error_event ev"
  shows "received parse frames = concat (map chunk_of (frame_events parse frames))"
    and "stream_failure parse frames e = e"
proof -
  have T: "takeWhile (\<lambda>e. \<not> is_error_event e) (frame_events parse frames) = frame_events parse frames"
    using assms by (simp add: takeWhile_eq_all_conv)
  show "received parse frames = concat (map chunk_of (frame_events parse frames))"
    unfolding received_def T ..
  have "List.find is_error_event (frame_events parse frames) = None"
    using assms by (simp add: find_None_iff)
  then show "stream_failure parse frames e = e" by (simp add: stream_failure_def)
qed




lemma placeholder_append:
  "append_chunk (int (length ms) + 1) t (ms @ [u, \<lparr>role = Assistant, content = []\<rparr>])
     = ms @ [u, \<lparr>role = Assistant, content = t\<rparr>]"
  by (simp add: append_chunk_def nth_append nat_add_distrib list_update_append)

lemma placeholder_mark:
  "mark_error (int (length ms) + 1) m (ms @ [u, \<lparr>role = Assistant, content = t\<rparr>])
     = ms @ [u, \<lparr>role = Assistant, content = (if t = [] then ''Error: '' @ m else t)\<rparr>]"
  by (simp add: mark_error_def nth_append nat_add_distrib list_update_append)

lemma try_stream_streaming:
  assumes "\<forall>f\<in>set frames. sse_frame f" "\<not> has_blank_line partial"
    and "concat rs = sse_stream frames @ partial"
  shows "try_stream parse (streaming rs e) i prompt msgs =
           (stream_failure parse frames e, append_chunk i (received parse frames) msgs)"
proof -
  obtain buf where R: "read_loop parse i [] rs e msgs =
           (stream_failure parse frames e, buf, append_chunk i (received parse frames) msgs)"
    using read_loop_sse [OF assms, of parse i e msgs] by auto
  show ?thesis
    by (simp add: try_stream_def streamTransformerChat_def streaming_def R)
qed

lemma handleSend_streaming:
  assumes "js_trim (input st) \<noteq> []"
    and "\<forall>f\<in>set frames. sse_frame f" "\<not> has_blank_line partial"
    and "concat rs = sse_stream frames @ partial"
  shows "handleSend parse (streaming rs e) st =
     st\<lparr>messages := messages st @
          [\<lparr>role = User, content = js_trim (input st)\<rparr>,
           \<lparr>role = Assistant,
            content = (case stream_failure parse frames e of
                         None \<Rightarrow> received parse frames
                       | Some t \<Rightarrow> if received parse frames = []
                                   then ''Error: '' @ error_message t
                                   else received parse frames)\<rparr>],
        input := [], busy := False,
        error := map_option error_message (stream_failure parse frames e),
        posted := posted st @ [js_trim (input st)]\<rparr>"
  using assms(1)
  by (cases "stream_failure parse frames e")
     (simp_all add: handleSend_def send_begin_def send_settle_def Let_def
        try_stream_streaming [OF assms(2,3,4)] placeholder_append placeholder_mark)


lemma handleSend_no_stream:
  assumes "js_trim (input st) \<noteq> []"
    and "streamTransformerChat fetch (js_trim (input st)) = Inl t"
  shows "handleSend parse fetch st =
     st\<lparr>messages := messages st @
          [\<lparr>role = User, content = js_trim (input st)\<rparr>,
           \<lparr>role = Assistant, content = ''Error: '' @ error_message t\<rparr>],
        input := [], busy := False, error := Some (error_message t),
        posted := posted st @ [js_trim (input st)]\<rparr>"
  using assms
  by (simp add: handleSend_def send_begin_def send_settle_def Let_def try_stream_def
        placeholder_mark)




lemma frame_events_append:
  "frame_events parse (xs @ ys) = frame_events parse xs @ frame_events parse ys"
  by (simp add: frame_events_def map_filter_def)

lemma find_after_none: "\<forall>x\<in>set xs. \<not> P x \<Longrightarrow> List.find P (xs @ ys) = List.find P ys"
  by (induction xs) simp_all

lemma error_frame_outcome:
  assumes "\<forall>ev\<in>set (frame_events parse pre). \<not> is_error_event ev"
    and "decode_event parse bad = Some (Error err)"
  shows "stream_failure parse (pre @ bad # post) e = Some (JsError (failed_message err))"
    and "received parse (pre @ bad # post) = concat (map chunk_of (frame_events parse pre))"
proof -
  have F: "frame_events parse (pre @ bad # post) =
      frame_events parse pre @ Error err # frame_events parse post"
    using assms(2) by (simp add: frame_events_append) (simp add: frame_events_def List.map_filter_simps)
  show "stream_failure parse (pre @ bad # post) e = Some (JsError (failed_message err))"
    unfolding stream_failure_def F using find_after_none [OF assms(1)] by simp
  show "received parse (pre @ bad # post) = concat (map chunk_of (frame_events parse pre))"
    unfolding received_def F using assms(1) by (simp add: takeWhile_append2)
qed

lemma handleSend_failed:
  assumes "js_trim (input st) \<noteq> []"
    and "\<forall>f\<in>set frames. sse_frame f" "\<not> has_blank_line partial"
    and "concat rs = sse_stream frames @ partial"
    and "stream_failure parse frames e = Some t"
  shows "handleSend parse (streaming rs e) st =
           left_visible st (js_trim (input st)) (received parse frames) (error_message t)"
  unfolding handleSend_streaming [OF assms(1,2,3,4)] assms(5) left_visible_def by simp

lemma handleSend_no_body:
  assumes "js_trim (input st) \<noteq> []"
    and "fetch (js_trim (input st)) = Fetched r" "ok r" "body r = None"
  shows "handleSend parse fetch st =
           left_visible st (js_trim (input st)) [] ''Streaming response not available''"
  using assms
  by (simp add: handleSend_def send_begin_def send_settle_def Let_def try_stream_def
        streamTransformerChat_def error_message_def placeholder_mark left_visible_def)

lemma handleSend_rejected:
  assumes "js_trim (input st) \<noteq> []"
    and "streamTransformerChat fetch (js_trim (input st)) = Inl t"
  shows "handleSend parse fetch st = left_visible st (js_trim (input st)) [] (error_message t)"
  unfolding handleSend_no_stream [OF assms] left_visible_def by simp

text \<open>
  C5: when the exchange fails, the page is left as \<open>left_visible\<close> says: the chunks
  already appended are kept, the marker \<open>Error: ...\<close> is written only into a placeholder
  that is still empty, the message is shown, the prompt has been posted exactly once and
  the page is no longer busy. The message is the \<open>error\<close> field of an \<open>error\<close> event (or
  \<open>Chat request failed\<close> when the field is absent or empty), the message of the error a
  read or the request rejects with (or \<open>Failed to stream chat response\<close> when what was
  thrown is no error object), the \<open>detail\<close> of a response that is not ok (or its status
  text), and \<open>Streaming response not available\<close> for a response without a body.
\<close>

theorem stream_error_left_visible:
  assumes "js_trim (input st) = prompt" and "prompt \<noteq> []"
  shows "((\<forall>f\<in>set (pre @ bad # post). sse_frame f) \<and> \<not> has_blank_line partial
            \<and> concat rs = sse_stream (pre @ bad # post) @ partial
            \<and> (\<forall>ev\<in>set (frame_events parse pre). \<not> is_error_event ev)
            \<and> decode_event parse bad = Some (Error err) \<longrightarrow>
          handleSend parse (streaming rs e) st =
            left_visible st prompt (concat (map chunk_of (frame_events parse pre)))
              (case err of None \<Rightarrow> ''Chat request failed''
                         | Some m \<Rightarrow> if m = [] then ''Chat request failed'' else m))
       \<and> ((\<forall>f\<in>set frames. sse_frame f) \<and> \<not> has_blank_line partial'
            \<and> concat rs' = sse_stream frames @ partial'
            \<and> (\<forall>ev\<in>set (frame_events parse frames). \<not> is_error_event ev) \<longrightarrow>
          handleSend parse (streaming rs' (Some t)) st =
            left_visible st prompt (concat (map chunk_of (frame_events parse frames)))
              (case t of JsError m \<Rightarrow> m | NotAnError \<Rightarrow> ''Failed to stream chat response''))
       \<and> (fetch1 prompt = FetchRejects t1 \<longrightarrow>
          handleSend parse fetch1 st =
            left_visible st prompt []
              (case t1 of JsError m \<Rightarrow> m | NotAnError \<Rightarrow> ''Failed to stream chat response''))
       \<and> (fetch2 prompt = Fetched r2 \<and> \<not> ok r2 \<longrightarrow>
          handleSend parse fetch2 st =
            left_visible st prompt []
              (case json_detail r2 of None \<Rightarrow> statusText r2
                                    | Some d \<Rightarrow> if d = [] then statusText r2 else d))
       \<and> (fetch3 prompt = Fetched r3 \<and> ok r3 \<and> body r3 = None \<longrightarrow>
          handleSend parse fetch3 st =
            left_visible st prompt [] ''Streaming response not available'')"
proof -
  have ne: "js_trim (input st) \<noteq> []" using assms by simp
  have P1: "handleSend parse (streaming rs e) st =
            left_visible st prompt (concat (map chunk_of (frame_events parse pre)))
              (case err of None \<Rightarrow> ''Chat request failed''
                         | Some m \<Rightarrow> if m = [] then ''Chat request failed'' else m)"
    if a: "\<forall>f\<in>set (pre @ bad # post). sse_frame f" "\<not> has_blank_line partial"
      "concat rs = sse_stream (pre @ bad # post) @ partial"
      "\<forall>ev\<in>set (frame_events parse pre). \<not> is_error_event ev"
      "decode_event parse bad = Some (Error err)"
  proof -
    note O = error_frame_outcome [OF a(4,5), of post]
    show ?thesis
      unfolding handleSend_failed [OF ne a(1,2,3) O(1) [of e]] O(2)
      using assms(1)
      by (simp add: error_message_def failed_message_def or_else_def split: option.splits)
  qed
  have P2: "handleSend parse (streaming rs' (Some t)) st =
            left_visible st prompt (concat (map chunk_of (frame_events parse frames)))
              (case t of JsError m \<Rightarrow> m | NotAnError \<Rightarrow> ''Failed to stream chat response'')"
    if a: "\<forall>f\<in>set frames. sse_frame f" "\<not> has_blank_line partial'"
      "concat rs' = sse_stream frames @ partial'"
      "\<forall>ev\<in>set (frame_events parse frames). \<not> is_error_event ev"
  proof -
    note N = no_error_received [OF a(4)]
    show ?thesis
      unfolding handleSend_failed [OF ne a(1,2,3) N(2) [of "Some t"]] N(1)
      using assms(1) by (simp add: error_message_def)
  qed
  have P3: "handleSend parse fetch1 st =
            left_visible st prompt []
              (case t1 of JsError m \<Rightarrow> m | NotAnError \<Rightarrow> ''Failed to stream chat response'')"
    if a: "fetch1 prompt = FetchRejects t1"
  proof -
    have "streamTransformerChat fetch1 (js_trim (input st)) = Inl t1"
      using a assms(1) by (simp add: streamTransformerChat_def)
    from handleSend_rejected [OF ne this] show ?thesis
      using assms(1) by (simp add: error_message_def)
  qed
  have P4: "handleSend parse fetch2 st =
            left_visible st prompt []
              (case json_detail r2 of None \<Rightarrow> statusText r2
                                    | Some d \<Rightarrow> if d = [] then statusText r2 else d)"
    if a: "fetch2 prompt = Fetched r2" "\<not> ok r2"
  proof -
    have "streamTransformerChat fetch2 (js_trim (input st)) =
        Inl (JsError (case json_detail r2 of None \<Rightarrow> statusText r2
                                    | Some d \<Rightarrow> if d = [] then statusText r2 else d))"
      using a assms(1) by (simp add: streamTransformerChat_def or_else_def split: option.splits)
    from handleSend_rejected [OF ne this] show ?thesis
      using assms(1) by (simp add: error_message_def)
  qed
  have P5: "handleSend parse fetch3 st =
            left_visible st prompt [] ''Streaming response not available''"
    if a: "fetch3 prompt = Fetched r3" "ok r3" "body r3 = None"
    using handleSend_no_body [OF ne, of fetch3 r3 parse] a assms(1) by simp
  from P1 P2 P3 P4 P5 show ?thesis by blast
qed





theorem stream_error_left_visible_witness:
  "handleSend example_parse
      (streaming [''data: chunk(Hel)'' @ [LF, LF] @ ''data: err'',
                  ''or(boom)'' @ [LF, LF] @ ''data: chunk(lo)'' @ [LF, LF]] None)
      \<lparr>messages = [], input = '' hi '', busy = False, error = None, posted = []\<rparr>
   = \<lparr>messages = [\<lparr>role = User, content = ''hi''\<rparr>, \<lparr>role = Assistant, content = ''Hel''\<rparr>],
      input = [], busy = False, error = Some ''boom'', posted = [''hi'']\<rparr>
   \<and> handleSend example_parse (streaming [''data: error()'' @ [LF, LF]] None)
      \<lparr>messages = [], input = '' hi '', busy = False, error = None, posted = []\<rparr>
   = \<lparr>messages = [\<lparr>role = User, content = ''hi''\<rparr>,
                   \<lparr>role = Assistant, content = ''Error: Chat request failed''\<rparr>],
      input = [], busy = False, error = Some ''Chat request failed'', posted = [''hi'']\<rparr>
   \<and> handleSend example_parse
      (streaming [''data: chunk(Hel)'' @ [LF], [LF] @ ''data: chu'']
         (Some (JsError ''network error'')))
      \<lparr>messages = [], input = '' hi '', busy = False, error = None, posted = []\<rparr>
   = \<lparr>messages = [\<lparr>role = User, content = ''hi''\<rparr>, \<lparr>role = Assistant, content = ''Hel''\<rparr>],
      input = [], busy = False, error = Some ''network error'', posted = [''hi'']\<rparr>
   \<and> handleSend example_parse (\<lambda>m. FetchRejects NotAnError)
      \<lparr>messages = [], input = '' hi '', busy = False, error = None, posted = []\<rparr>
   = \<lparr>messages = [\<lparr>role = User, content = ''hi''\<rparr>,
                   \<lparr>role = Assistant, content = ''Error: Failed to stream chat response''\<rparr>],
      input = [], busy = False, error = Some ''Failed to stream chat response'',
      posted = [''hi'']\<rparr>
   \<and> handleSend example_parse
      (\<lambda>m. Fetched \<lparr>ok = False, statusText = ''Bad Gateway'',
                     json_detail = Some ''upstream down'', body = None\<rparr>)
      \<lparr>messages = [], input = '' hi '', busy = False, error = None, posted = []\<rparr>
   = \<lparr>messages = [\<lparr>role = User, content = ''hi''\<rparr>,
                   \<lparr>role = Assistant, content = ''Error: upstream down''\<rparr>],
      input = [], busy = False, error = Some ''upstream down'', posted = [''hi'']\<rparr>
   \<and> handleSend example_parse
      (\<lambda>m. Fetched \<lparr>ok = True, statusText = ''OK'', json_detail = None, body = None\<rparr>)
      \<lparr>messages = [], input = '' hi '', busy = False, error = None, posted = []\<rparr>
   = \<lparr>messages = [\<lparr>role = User, content = ''hi''\<rparr>,
                   \<lparr>role = Assistant, content = ''Error: Streaming response not available''\<rparr>],
      input = [], busy = False, error = Some ''Streaming response not available'',
      posted = [''hi'']\<rparr>"
proof -
  let ?st = "\<lparr>messages = [], input = '' hi '', busy = False, error = None, posted = []\<rparr>"
  let ?pre = "[''data: chunk(Hel)'']"
  let ?post = "[''data: chunk(lo)'']"
  let ?rs = "[''data: chunk(Hel)'' @ [LF, LF] @ ''data: err'',
              ''or(boom)'' @ [LF, LF] @ ''data: chunk(lo)'' @ [LF, LF]]"
  let ?rsE = "[''data: error()'' @ [LF, LF]]"
  let ?rs' = "[''data: chunk(Hel)'' @ [LF], [LF] @ ''data: chu'']"
  let ?f1 = "\<lambda>m::string. FetchRejects NotAnError"
  let ?r2 = "\<lparr>ok = False, statusText = ''Bad Gateway'',
                     json_detail = Some ''upstream down'', body = None\<rparr>"
  let ?f2 = "\<lambda>m::string. Fetched ?r2"
  let ?r3 = "\<lparr>ok = True, statusText = ''OK'', json_detail = None, body = None\<rparr>"
  let ?f3 = "\<lambda>m::string. Fetched ?r3"
  have a1: "js_trim (input ?st) = ''hi''" by code_simp
  have a2: "''hi'' \<noteq> []" by simp
  note T = stream_error_left_visible [OF a1 a2, where parse = example_parse]
  have k1: "\<forall>f\<in>set (?pre @ ''data: error(boom)'' # ?post). sse_frame f" by code_simp
  have k2: "\<not> has_blank_line []" by code_simp
  have k3: "concat ?rs = sse_stream (?pre @ ''data: error(boom)'' # ?post) @ []" by code_simp
  have k4: "\<forall>ev\<in>set (frame_events example_parse ?pre). \<not> is_error_event ev" by code_simp
  have k5: "decode_event example_parse ''data: error(boom)'' = Some (Error (Some ''boom''))"
    by code_simp
  have h1: "(\<forall>f\<in>set (?pre @ ''data: error(boom)'' # ?post). sse_frame f) \<and> \<not> has_blank_line []
            \<and> concat ?rs = sse_stream (?pre @ ''data: error(boom)'' # ?post) @ []
            \<and> (\<forall>ev\<in>set (frame_events example_parse ?pre). \<not> is_error_event ev)
            \<and> decode_event example_parse ''data: error(boom)'' = Some (Error (Some ''boom''))"
    using k1 k2 k3 k4 k5 by (intro conjI)
  have h0: "(\<forall>f\<in>set ([] @ ''data: error()'' # []). sse_frame f) \<and> \<not> has_blank_line []
            \<and> concat ?rsE = sse_stream ([] @ ''data: error()'' # []) @ []
            \<and> (\<forall>ev\<in>set (frame_events example_parse []). \<not> is_error_event ev)
            \<and> decode_event example_parse ''data: error()'' = Some (Error (Some []))"
    by code_simp
  have h2: "(\<forall>f\<in>set ?pre. sse_frame f) \<and> \<not> has_blank_line ''data: chu''
            \<and> concat ?rs' = sse_stream ?pre @ ''data: chu''
            \<and> (\<forall>ev\<in>set (frame_events example_parse ?pre). \<not> is_error_event ev)"
    by code_simp
  have h3: "?f1 ''hi'' = FetchRejects NotAnError" by simp
  have h4: "?f2 ''hi'' = Fetched ?r2 \<and> \<not> ok ?r2" by simp
  have h5: "?f3 ''hi'' = Fetched ?r3 \<and> ok ?r3 \<and> body ?r3 = None" by simp
  have r1: "left_visible ?st ''hi'' (concat (map chunk_of (frame_events example_parse ?pre)))
              (case Some ''boom'' of None \<Rightarrow> ''Chat request failed''
                         | Some m \<Rightarrow> if m = [] then ''Chat request failed'' else m)
     = \<lparr>messages = [\<lparr>role = User, content = ''hi''\<rparr>, \<lparr>role = Assistant, content = ''Hel''\<rparr>],
      input = [], busy = False, error = Some ''boom'', posted = [''hi'']\<rparr>"
    by code_simp
  have r0: "left_visible ?st ''hi'' (concat (map chunk_of (frame_events example_parse [])))
              (case Some [] of None \<Rightarrow> ''Chat request failed''
                         | Some m \<Rightarrow> if m = [] then ''Chat request failed'' else m)
     = \<lparr>messages = [\<lparr>role = User, content = ''hi''\<rparr>,
                   \<lparr>role = Assistant, content = ''Error: Chat request failed''\<rparr>],
      input = [], busy = False, error = Some ''Chat request failed'', posted = [''hi'']\<rparr>"
    by code_simp
  have r2: "left_visible ?st ''hi'' (concat (map chunk_of (frame_events example_parse ?pre)))
              (case JsError ''network error'' of JsError m \<Rightarrow> m
                 | NotAnError \<Rightarrow> ''Failed to stream chat response'')
     = \<lparr>messages = [\<lparr>role = User, content = ''hi''\<rparr>, \<lparr>role = Assistant, content = ''Hel''\<rparr>],
      input = [], busy = False, error = Some ''network error'', posted = [''hi'']\<rparr>"
    by code_simp
  have r3: "left_visible ?st ''hi'' []
              (case NotAnError of JsError m \<Rightarrow> m | NotAnError \<Rightarrow> ''Failed to stream chat response'')
     = \<lparr>messages = [\<lparr>role = User, content = ''hi''\<rparr>,
                   \<lparr>role = Assistant, content = ''Error: Failed to stream chat response''\<rparr>],
      input = [], busy = False, error = Some ''Failed to stream chat response'',
      posted = [''hi'']\<rparr>"
    by code_simp
  have r4: "left_visible ?st ''hi'' []
              (case json_detail ?r2 of None \<Rightarrow> statusText ?r2
                                    | Some d \<Rightarrow> if d = [] then statusText ?r2 else d)
     = \<lparr>messages = [\<lparr>role = User, content = ''hi''\<rparr>,
                   \<lparr>role = Assistant, content = ''Error: upstream down''\<rparr>],
      input = [], busy = False, error = Some ''upstream down'', posted = [''hi'']\<rparr>"
    by code_simp
  have r5: "left_visible ?st ''hi'' [] ''Streaming response not available''
     = \<lparr>messages = [\<lparr>role = User, content = ''hi''\<rparr>,
                   \<lparr>role = Assistant, content = ''Error: Streaming response not available''\<rparr>],
      input = [], busy = False, error = Some ''Streaming response not available'',
      posted = [''hi'']\<rparr>"
    by code_simp
  note c1 = trans [OF T [where rs = ?rs and e = None, THEN conjunct1, THEN mp, OF h1] r1]
  note c0 = trans [OF T [where rs = ?rsE and e = None, THEN conjunct1, THEN mp, OF h0] r0]
  note c2 = trans [OF T [where rs' = ?rs' and t = "JsError ''network error''",
      THEN conjunct2, THEN conjunct1, THEN mp, OF h2] r2]
  note c3 = trans [OF T [where ?fetch1.0 = ?f1,
      THEN conjunct2, THEN conjunct2, THEN conjunct1, THEN mp, OF h3] r3]
  note c4 = trans [OF T [where ?fetch2.0 = ?f2,
      THEN conjunct2, THEN conjunct2, THEN conjunct2, THEN conjunct1, THEN mp, OF h4] r4]
  note c5 = trans [OF T [where ?fetch3.0 = ?f3,
      THEN conjunct2, THEN conjunct2, THEN conjunct2, THEN conjunct2, THEN mp, OF h5] r5]
  from c1 c0 c2 c3 c4 c5 show ?thesis by (intro conjI)
qed


section \<open>One request at a time\<close>

lemma send_settle_idle: "\<not> busy (send_settle i out st)"
  by (cases out) (simp add: send_settle_def split: option.splits)

lemma start_send_one:
  assumes "one_at_most u" "canSend (page u)"
  shows "one_at_most (start_send u)"
  using assms
  by (auto simp: one_at_most_def canSend_def start_send_def send_begin_def Let_def)

lemma ui_step_one: "one_at_most u \<Longrightarrow> one_at_most (ui_step u ev)"
proof (cases ev)
  case (StreamEnd k t)
  assume "one_at_most u"
  then show ?thesis unfolding StreamEnd
    by (auto simp: one_at_most_def send_settle_idle)
qed (auto simp: start_send_one, auto simp: one_at_most_def)

lemma run_one: "one_at_most u \<Longrightarrow> one_at_most (foldl ui_step u evs)"
  by (induction evs arbitrary: u) (simp_all add: ui_step_one)

lemma mounted_one: "one_at_most (mounted msgs)"
  by (simp add: one_at_most_def mounted_def)

text \<open>
  C9: in every state the page reaches from mounting, at most one call of \<open>handleSend\<close>
  is in flight; while one is, the page is busy, \<open>canSend\<close> is false, and neither a click
  on the send button nor a key press in the input starts a second send.
\<close>

theorem one_stream_in_flight:
  "length (in_flight (foldl ui_step (mounted msgs) evs)) \<le> 1
   \<and> (in_flight (foldl ui_step (mounted msgs) evs) \<noteq> [] \<longrightarrow>
        busy (page (foldl ui_step (mounted msgs) evs))
        \<and> \<not> canSend (page (foldl ui_step (mounted msgs) evs))
        \<and> ui_step (foldl ui_step (mounted msgs) evs) Click = foldl ui_step (mounted msgs) evs
        \<and> ui_step (foldl ui_step (mounted msgs) evs) (KeyDown k)
            = foldl ui_step (mounted msgs) evs)"
  using run_one [OF mounted_one, of msgs evs]
  by (simp add: one_at_most_def canSend_def)

theorem one_stream_in_flight_witness:
  "in_flight (foldl ui_step (mounted [])
       [Change ''hello'', KeyDown ''Enter'', Change ''again'', KeyDown ''Enter'', Click]) = [1]
   \<and> ui_step (foldl ui_step (mounted [])
       [Change ''hello'', KeyDown ''Enter'', Change ''again'', KeyDown ''Enter'', Click]) Click
     = foldl ui_step (mounted [])
       [Change ''hello'', KeyDown ''Enter'', Change ''again'', KeyDown ''Enter'', Click]"
proof -
  let ?u = "foldl ui_step (mounted [])
       [Change ''hello'', KeyDown ''Enter'', Change ''again'', KeyDown ''Enter'', Click]"
  have a: "in_flight ?u = [1]" by code_simp
  then have b: "in_flight ?u \<noteq> []" by (simp only: list.distinct not_False_eq_True)
  from one_stream_in_flight [of "[]" "[Change ''hello'', KeyDown ''Enter'', Change ''again'',
      KeyDown ''Enter'', Click]" "''Enter''"] b
  have "ui_step ?u Click = ?u" by blast
  with a show ?thesis by (rule conjI)
qed

section \<open>Saving a rule\<close>

lemma add_row_blank: "\<not> kept r \<Longrightarrow> add_row ops rt s r = s"
  by (cases s) (auto simp: add_row_def kept_def Let_def)

lemma add_row_kept:
  "kept r \<Longrightarrow> add_row ops rt (acc, ds) r =
     (assign acc (js_trim (row_key r))
        (if isNumericConditional rt then JNum (to_number ops (js_trim (row_value r)))
         else JStr (js_trim (row_value r))),
      if is_defined acc (js_trim (row_key r)) then set_add ds (js_trim (row_key r)) else ds)"
  by (simp add: add_row_def kept_def Let_def)

lemma foldl_add_row_filter:
  "foldl (add_row ops rt) s rs = foldl (add_row ops rt) s (filter kept rs)"
  by (induction rs arbitrary: s) (simp_all add: add_row_blank)

lemma set_add_mono: "k \<in> set ds \<Longrightarrow> k \<in> set (set_add ds k')"
  by (simp add: set_add_def)

lemma set_add_in: "k \<in> set (set_add ds k)"
  by (simp add: set_add_def)

lemma is_defined_assign: "is_defined acc k \<Longrightarrow> is_defined (assign acc k' v) k"
  by (simp add: is_defined_def assign_def)

lemma is_defined_assigned: "is_defined (assign acc k v) k"
  by (simp add: is_defined_def assign_def object_prototype_keys_def)

lemma add_row_dups_mono: "k \<in> set (snd s) \<Longrightarrow> k \<in> set (snd (add_row ops rt s r))"
  by (cases s; cases "kept r") (simp_all add: add_row_blank add_row_kept set_add_mono)

lemma add_row_defined_mono:
  "is_defined (fst s) k \<Longrightarrow> is_defined (fst (add_row ops rt s r)) k"
  by (cases s; cases "kept r") (simp_all add: add_row_blank add_row_kept is_defined_assign)

lemma foldl_dups_mono:
  "k \<in> set (snd s) \<Longrightarrow> k \<in> set (snd (foldl (add_row ops rt) s rs))"
  by (induction rs arbitrary: s) (simp_all add: add_row_dups_mono)

lemma foldl_defined_mono:
  "is_defined (fst s) k \<Longrightarrow> is_defined (fst (foldl (add_row ops rt) s rs)) k"
  by (induction rs arbitrary: s) (simp_all add: add_row_defined_mono)

lemma add_row_defines:
  "kept r \<Longrightarrow> is_defined (fst (add_row ops rt s r)) (js_trim (row_key r))"
  by (cases s) (simp add: add_row_kept is_defined_assigned)

lemma add_row_flags:
  "kept r \<Longrightarrow> is_defined (fst s) (js_trim (row_key r)) \<Longrightarrow>
     js_trim (row_key r) \<in> set (snd (add_row ops rt s r))"
  by (cases s) (simp add: add_row_kept set_add_in)

lemma builtRows_duplicate:
  assumes "kept r1" "kept r2" "js_trim (row_key r1) = js_trim (row_key r2)"
  shows "js_trim (row_key r1) \<in> set (snd (builtRows ops rt (xs @ r1 # ys @ r2 # zs)))"
proof -
  let ?f = "add_row ops rt"
  let ?k = "js_trim (row_key r1)"
  define s1 where "s1 = foldl ?f (Map.empty, []) xs"
  define s2 where "s2 = ?f s1 r1"
  define s3 where "s3 = foldl ?f s2 ys"
  define s4 where "s4 = ?f s3 r2"
  have "is_defined (fst s2) ?k" unfolding s2_def using assms(1) by (rule add_row_defines)
  then have "is_defined (fst s3) ?k" unfolding s3_def by (rule foldl_defined_mono)
  then have "is_defined (fst s3) (js_trim (row_key r2))" using assms(3) by simp
  with assms(2) have "js_trim (row_key r2) \<in> set (snd s4)" unfolding s4_def by (rule add_row_flags)
  then have "?k \<in> set (snd s4)" using assms(3) by simp
  then have "?k \<in> set (snd (foldl ?f s4 zs))" by (rule foldl_dups_mono)
  moreover have "builtRows ops rt (xs @ r1 # ys @ r2 # zs) = foldl ?f s4 zs"
    by (simp add: builtRows_def s1_def s2_def s3_def s4_def)
  ultimately show ?thesis by simp
qed

lemma foldl_values:
  "fst (foldl (add_row ops rt) s rs) k = Some v \<Longrightarrow>
     fst s k = Some v \<or>
     (\<exists>r\<in>set rs. kept r \<and> k = js_trim (row_key r) \<and>
        v = (if isNumericConditional rt then JNum (to_number ops (js_trim (row_value r)))
             else JStr (js_trim (row_value r))))"
proof (induction rs arbitrary: s)
  case Nil
  then show ?case by simp
next
  case (Cons r rs)
  from Cons.prems have "fst (foldl (add_row ops rt) (add_row ops rt s r) rs) k = Some v" by simp
  from Cons.IH [OF this] show ?case
  proof
    assume A: "fst (add_row ops rt s r) k = Some v"
    show ?thesis
    proof (cases "kept r")
      case False
      with A show ?thesis by (simp add: add_row_blank)
    next
      case True
      obtain acc ds where s: "s = (acc, ds)" by (cases s)
      from A True show ?thesis unfolding s
        by (auto simp: add_row_kept assign_def split: if_splits)
    qed
  next
    assume "\<exists>r\<in>set rs. kept r \<and> k = js_trim (row_key r) \<and>
        v = (if isNumericConditional rt then JNum (to_number ops (js_trim (row_value r)))
             else JStr (js_trim (row_value r)))"
    then show ?thesis by auto
  qed
qed

lemma builtRows_values:
  "fst (builtRows ops rt rs) k = Some v \<Longrightarrow>
     \<exists>r\<in>set rs. kept r \<and> k = js_trim (row_key r) \<and>
        v = (if isNumericConditional rt then JNum (to_number ops (js_trim (row_value r)))
             else JStr (js_trim (row_value r)))"
  using foldl_values [of ops rt "(Map.empty, [])" rs k v] by (simp add: builtRows_def)

lemma save_calls:
  "snd (save ops rt onSave st) =
     (if snd (builtRows ops rt (rows st)) \<noteq> [] then []
      else [save_payload ops rt (defaultValue st) (fst (builtRows ops rt (rows st)))])"
  by (simp add: save_def Let_def split: prod.splits option.splits)

lemma save_error_duplicate:
  "snd (builtRows ops rt (rows st)) \<noteq> [] \<Longrightarrow>
     save_error (fst (save ops rt onSave st)) =
       Some (''Duplicate keys: '' @ js_join '', '' (snd (builtRows ops rt (rows st))))"
  by (cases "builtRows ops rt (rows st)") (simp add: save_def)

text \<open>
  C4 (as amended): when two rows that the editor keeps (key and value not empty once
  trimmed) have the same trimmed key, \<open>save\<close> fails with the error
  \<open>Duplicate keys: ...\<close> naming that key, and \<open>onSave\<close> is never called, so nothing is
  written. Rows with a blank key or value are dropped before the check and do not count.
\<close>

theorem duplicate_kept_keys_rejected:
  assumes "rows st = xs @ r1 # ys @ r2 # zs"
    and "kept r1" and "kept r2"
    and "js_trim (row_key r1) = js_trim (row_key r2)"
  shows "snd (save ops ruleType onSave st) = []
       \<and> (\<exists>ks. js_trim (row_key r1) \<in> set ks
              \<and> save_error (fst (save ops ruleType onSave st))
                  = Some (''Duplicate keys: '' @ js_join '', '' ks))"
proof -
  have D: "js_trim (row_key r1) \<in> set (snd (builtRows ops ruleType (rows st)))"
    unfolding assms(1) using assms(2,3,4) by (rule builtRows_duplicate)
  then have N: "snd (builtRows ops ruleType (rows st)) \<noteq> []" by auto
  have "snd (save ops ruleType onSave st) = []" using N by (simp add: save_calls)
  moreover have "save_error (fst (save ops ruleType onSave st)) =
       Some (''Duplicate keys: '' @ js_join '', '' (snd (builtRows ops ruleType (rows st))))"
    using N by (rule save_error_duplicate)
  ultimately show ?thesis using D by blast
qed


theorem duplicate_kept_keys_rejected_witness:
  "snd (save example_ops ''salesTaxRate'' always_resolves
      \<lparr>rows = [\<lparr>row_key = ''ACME'', row_value = ''10%''\<rparr>,
               \<lparr>row_key = ''Globex'', row_value = ''5%''\<rparr>,
               \<lparr>row_key = '' ACME '', row_value = ''12%''\<rparr>],
       defaultValue = ''20%'', saving = False, save_error = None\<rparr>) = []"
proof -
  let ?r1 = "\<lparr>row_key = ''ACME'', row_value = ''10%''\<rparr>"
  let ?r2 = "\<lparr>row_key = '' ACME '', row_value = ''12%''\<rparr>"
  let ?ys = "[\<lparr>row_key = ''Globex'', row_value = ''5%''\<rparr>]"
  let ?st = "\<lparr>rows = [?r1, \<lparr>row_key = ''Globex'', row_value = ''5%''\<rparr>, ?r2],
       defaultValue = ''20%'', saving = False, save_error = None\<rparr>"
  have h1: "rows ?st = [] @ ?r1 # ?ys @ ?r2 # []" by simp
  have h2: "kept ?r1" by code_simp
  have h3: "kept ?r2" by code_simp
  have h4: "js_trim (row_key ?r1) = js_trim (row_key ?r2)" by code_simp
  from duplicate_kept_keys_rejected [OF h1 h2 h3 h4, of example_ops "''salesTaxRate''" always_resolves]
  show ?thesis by (rule conjunct1)
qed

text \<open>
  C4 as stated fails: two rows with the identical key \<open>ACME\<close>, the second with a blank
  value, are saved: \<open>onSave\<close> is called once and no error is set.
\<close>

theorem duplicate_key_blank_value_saved:
  "length (snd (save example_ops ''salesTaxRate'' always_resolves
      \<lparr>rows = [\<lparr>row_key = ''ACME'', row_value = ''10%''\<rparr>,
               \<lparr>row_key = ''ACME'', row_value = '' ''\<rparr>],
       defaultValue = ''20%'', saving = False, save_error = None\<rparr>)) = 1
   \<and> save_error (fst (save example_ops ''salesTaxRate'' always_resolves
      \<lparr>rows = [\<lparr>row_key = ''ACME'', row_value = ''10%''\<rparr>,
               \<lparr>row_key = ''ACME'', row_value = '' ''\<rparr>],
       defaultValue = ''20%'', saving = False, save_error = None\<rparr>)) = None"
  by code_simp

lemma numeric_not_other:
  "isNumericConditional rt \<Longrightarrow> \<not> isMappingRule rt \<and> \<not> isConfigRule rt"
  by (simp add: isNumericConditional_def isMappingRule_def isConfigRule_def)

lemma config_not_numeric: "isConfigRule rt \<Longrightarrow> \<not> isNumericConditional rt"
  by (auto simp: isNumericConditional_def isConfigRule_def)

lemma foldl_dups_nonempty:
  "snd s \<noteq> [] \<Longrightarrow> snd (foldl (add_row ops rt) s rs) \<noteq> []"
proof -
  assume "snd s \<noteq> []"
  then obtain k where "k \<in> set (snd s)" by (cases "snd s") auto
  then have "k \<in> set (snd (foldl (add_row ops rt) s rs))" by (rule foldl_dups_mono)
  then show ?thesis by auto
qed

lemma foldl_keeps_value:
  "fst s k = Some v \<Longrightarrow> snd (foldl (add_row ops rt) s rs) = [] \<Longrightarrow>
     fst (foldl (add_row ops rt) s rs) k = Some v"
proof (induction rs arbitrary: s)
  case Nil
  then show ?case by simp
next
  case (Cons r rs)
  obtain acc ds where s: "s = (acc, ds)" by (cases s)
  from Cons.prems(2) have fin: "snd (foldl (add_row ops rt) (add_row ops rt s r) rs) = []" by simp
  then have mid: "snd (add_row ops rt s r) = []" using foldl_dups_nonempty by blast
  have "fst (add_row ops rt s r) k = Some v"
  proof (cases "kept r")
    case False
    with Cons.prems(1) show ?thesis by (simp add: add_row_blank)
  next
    case True
    have "js_trim (row_key r) \<noteq> k"
    proof
      assume "js_trim (row_key r) = k"
      with Cons.prems(1) s have "is_defined acc (js_trim (row_key r))" by (simp add: is_defined_def)
      with True mid s show False by (simp add: add_row_kept set_add_def split: if_splits)
    qed
    with True Cons.prems(1) s show ?thesis by (simp add: add_row_kept assign_def)
  qed
  from Cons.IH [OF this fin] show ?case by simp
qed

lemma foldl_stores_kept:
  "r \<in> set rs \<Longrightarrow> kept r \<Longrightarrow> snd (foldl (add_row ops rt) s rs) = [] \<Longrightarrow>
     fst (foldl (add_row ops rt) s rs) (js_trim (row_key r)) =
       Some (if isNumericConditional rt then JNum (to_number ops (js_trim (row_value r)))
             else JStr (js_trim (row_value r)))"
proof (induction rs arbitrary: s)
  case Nil
  then show ?case by simp
next
  case (Cons x rs)
  obtain acc ds where s: "s = (acc, ds)" by (cases s)
  from Cons.prems(3) have fin: "snd (foldl (add_row ops rt) (add_row ops rt s x) rs) = []" by simp
  then have mid: "snd (add_row ops rt s x) = []" using foldl_dups_nonempty by blast
  show ?case
  proof (cases "r \<in> set rs")
    case True
    from Cons.IH [OF True Cons.prems(2) fin] show ?thesis by simp
  next
    case False
    with Cons.prems(1) have rx: "x = r" by simp
    have nd: "\<not> is_defined acc (js_trim (row_key r))"
      using mid Cons.prems(2) unfolding s rx
      by (auto simp: add_row_kept set_add_def split: if_splits)
    then have "js_trim (row_key r) \<noteq> ''__proto__''"
      by (auto simp: is_defined_def object_prototype_keys_def)
    then have "fst (add_row ops rt s r) (js_trim (row_key r)) =
       Some (if isNumericConditional rt then JNum (to_number ops (js_trim (row_value r)))
             else JStr (js_trim (row_value r)))"
      using Cons.prems(2) unfolding s by (simp add: add_row_kept assign_def)
    from foldl_keeps_value [OF this fin [unfolded rx]] show ?thesis unfolding rx by simp
  qed
qed

lemma builtRows_stores_kept:
  "r \<in> set rs \<Longrightarrow> kept r \<Longrightarrow> snd (builtRows ops rt rs) = [] \<Longrightarrow>
     fst (builtRows ops rt rs) (js_trim (row_key r)) =
       Some (if isNumericConditional rt then JNum (to_number ops (js_trim (row_value r)))
             else JStr (js_trim (row_value r)))"
  unfolding builtRows_def by (rule foldl_stores_kept)

text \<open>
  C8: every payload that \<open>save\<close> hands to \<open>onSave\<close> for the numeric rule \<open>deliveryDays\<close>
  has the number \<open>Number(defaultValue || 0)\<close> as default, holds for every kept row the
  number \<open>Number(value)\<close> of its trimmed value under its trimmed key, and holds no other
  condition; for a string-typed conditional rule the default is the string entered and
  the conditions are the trimmed strings of the kept rows.
\<close>

theorem numeric_rule_saved_as_numbers:
  assumes "p \<in> set (snd (save ops ruleType onSave st))"
  shows "(isNumericConditional ruleType \<longrightarrow>
           (\<exists>c. p = ConditionalRule
                     (JNum (if defaultValue st = [] then number_zero ops
                            else to_number ops (defaultValue st))) c
               \<and> (\<forall>r\<in>set (rows st). kept r \<longrightarrow>
                     c (js_trim (row_key r)) = Some (JNum (to_number ops (js_trim (row_value r)))))
               \<and> (\<forall>k v. c k = Some v \<longrightarrow>
                     (\<exists>r\<in>set (rows st). kept r \<and> k = js_trim (row_key r)
                         \<and> v = JNum (to_number ops (js_trim (row_value r)))))))
       \<and> (\<not> isNumericConditional ruleType \<and> \<not> isMappingRule ruleType
             \<and> \<not> isConfigRule ruleType \<longrightarrow>
           (\<exists>c. p = ConditionalRule (JStr (defaultValue st)) c
               \<and> (\<forall>r\<in>set (rows st). kept r \<longrightarrow>
                     c (js_trim (row_key r)) = Some (JStr (js_trim (row_value r))))
               \<and> (\<forall>k v. c k = Some v \<longrightarrow>
                     (\<exists>r\<in>set (rows st). kept r \<and> k = js_trim (row_key r)
                         \<and> v = JStr (js_trim (row_value r))))))"
proof -
  let ?b = "fst (builtRows ops ruleType (rows st))"
  from assms have D: "snd (builtRows ops ruleType (rows st)) = []"
    by (simp add: save_calls split: if_splits)
  from assms have P: "p = save_payload ops ruleType (defaultValue st) ?b"
    by (simp add: save_calls split: if_splits)
  show ?thesis
  proof (intro conjI impI)
    assume N: "isNumericConditional ruleType"
    with numeric_not_other have O: "\<not> isMappingRule ruleType" "\<not> isConfigRule ruleType" by auto
    have "p = ConditionalRule
                     (JNum (if defaultValue st = [] then number_zero ops
                            else to_number ops (defaultValue st))) ?b"
      using P N O by (simp add: save_payload_def)
    moreover have "\<forall>r\<in>set (rows st). kept r \<longrightarrow>
                     ?b (js_trim (row_key r)) = Some (JNum (to_number ops (js_trim (row_value r))))"
      using builtRows_stores_kept [of _ "rows st" ops ruleType, OF _ _ D] N by auto
    moreover have "\<forall>k v. ?b k = Some v \<longrightarrow>
                     (\<exists>r\<in>set (rows st). kept r \<and> k = js_trim (row_key r)
                         \<and> v = JNum (to_number ops (js_trim (row_value r))))"
      using builtRows_values [of ops ruleType "rows st"] N by auto
    ultimately show "\<exists>c. p = ConditionalRule
                     (JNum (if defaultValue st = [] then number_zero ops
                            else to_number ops (defaultValue st))) c
               \<and> (\<forall>r\<in>set (rows st). kept r \<longrightarrow>
                     c (js_trim (row_key r)) = Some (JNum (to_number ops (js_trim (row_value r)))))
               \<and> (\<forall>k v. c k = Some v \<longrightarrow>
                     (\<exists>r\<in>set (rows st). kept r \<and> k = js_trim (row_key r)
                         \<and> v = JNum (to_number ops (js_trim (row_value r)))))"
      by blast
  next
    assume S: "\<not> isNumericConditional ruleType \<and> \<not> isMappingRule ruleType
             \<and> \<not> isConfigRule ruleType"
    have "p = ConditionalRule (JStr (defaultValue st)) ?b"
      using P S by (simp add: save_payload_def)
    moreover have "\<forall>r\<in>set (rows st). kept r \<longrightarrow>
                     ?b (js_trim (row_key r)) = Some (JStr (js_trim (row_value r)))"
      using builtRows_stores_kept [of _ "rows st" ops ruleType, OF _ _ D] S by auto
    moreover have "\<forall>k v. ?b k = Some v \<longrightarrow>
                     (\<exists>r\<in>set (rows st). kept r \<and> k = js_trim (row_key r)
                         \<and> v = JStr (js_trim (row_value r)))"
      using builtRows_values [of ops ruleType "rows st"] S by auto
    ultimately show "\<exists>c. p = ConditionalRule (JStr (defaultValue st)) c
               \<and> (\<forall>r\<in>set (rows st). kept r \<longrightarrow>
                     c (js_trim (row_key r)) = Some (JStr (js_trim (row_value r))))
               \<and> (\<forall>k v. c k = Some v \<longrightarrow>
                     (\<exists>r\<in>set (rows st). kept r \<and> k = js_trim (row_key r)
                         \<and> v = JStr (js_trim (row_value r))))"
      by blast
  qed
qed

lemma save_filter_kept:
  "save ops rt onSave st =
     (case save ops rt onSave (st\<lparr>rows := filter kept (rows st)\<rparr>) of
        (st', calls) \<Rightarrow> (st'\<lparr>rows := rows st\<rparr>, calls))"
proof -
  have B: "builtRows ops rt (filter kept (rows st)) = builtRows ops rt (rows st)"
    unfolding builtRows_def by (rule foldl_add_row_filter [symmetric])
  show ?thesis
    by (cases "builtRows ops rt (rows st)")
       (simp add: save_def B Let_def split: option.splits)
qed

lemma payload_values:
  assumes "p \<in> set (snd (save ops rt onSave st))" "payload_conditions p k = Some v"
  shows "k \<noteq> [] \<and> v \<noteq> JStr []"
proof -
  let ?b = "fst (builtRows ops rt (rows st))"
  from assms(1) have P: "p = save_payload ops rt (defaultValue st) ?b"
    by (simp add: save_calls split: if_splits)
  show ?thesis
  proof (cases "isConfigRule rt \<and> \<not> isMappingRule rt")
    case False
    then have "payload_conditions p = ?b" using P by (auto simp: save_payload_def)
    with assms(2) have "?b k = Some v" by simp
    from builtRows_values [OF this] show ?thesis by (auto simp: kept_def split: if_splits)
  next
    case True
    then have "payload_conditions p = (\<lambda>k. map_option (config_value ops k) (?b k))"
      using P by (simp add: save_payload_def)
    with assms(2) obtain v0 where v0: "?b k = Some v0" "v = config_value ops k v0" by auto
    from True have "\<not> isNumericConditional rt" by (simp add: config_not_numeric)
    with builtRows_values [OF v0(1)] obtain r where
      "kept r" "k = js_trim (row_key r)" "v0 = JStr (js_trim (row_value r))" by auto
    then show ?thesis using v0(2) by (auto simp: kept_def config_value_def)
  qed
qed

lemma blank_partner_saved:
  assumes "rows st = [r, r'] \<or> rows st = [r', r]" "kept r" "\<not> kept r'"
    and "js_trim (row_key r) \<notin> set object_prototype_keys"
  shows "snd (save ops rt onSave st) =
           [save_payload ops rt (defaultValue st) (fst (builtRows ops rt [r]))]"
proof -
  have F: "filter kept (rows st) = [r]" using assms(1,2,3) by auto
  have B: "builtRows ops rt (rows st) = builtRows ops rt [r]"
    unfolding builtRows_def using foldl_add_row_filter [of ops rt "(Map.empty, [])" "rows st"] F
    by simp
  have D: "snd (builtRows ops rt [r]) = []"
    using assms(2,4) by (simp add: builtRows_def add_row_kept is_defined_def)
  show ?thesis by (simp add: save_calls B D)
qed

text \<open>
  C10: \<open>save\<close> ignores every row whose key or value is empty once trimmed: its result is
  the one it has on the kept rows alone (so the duplicate check sees only those); no
  saved condition has an empty key or the empty string as value; and a kept row together
  with a blank row of the same key is saved without a duplicate error (for a key that
  \<open>Object.prototype\<close> does not define).
\<close>

theorem blank_rows_left_out:
  "save ops ruleType onSave st =
     (case save ops ruleType onSave (st\<lparr>rows := filter kept (rows st)\<rparr>) of
        (st', calls) \<Rightarrow> (st'\<lparr>rows := rows st\<rparr>, calls))
   \<and> (p \<in> set (snd (save ops ruleType onSave st)) \<and> payload_conditions p k = Some v \<longrightarrow>
        k \<noteq> [] \<and> v \<noteq> JStr [])
   \<and> ((rows st = [r, r'] \<or> rows st = [r', r]) \<and> kept r \<and> \<not> kept r'
        \<and> js_trim (row_key r) \<notin> set object_prototype_keys \<longrightarrow>
        snd (save ops ruleType onSave st) =
          [save_payload ops ruleType (defaultValue st) (fst (builtRows ops ruleType [r]))])"
  using save_filter_kept [of ops ruleType onSave st]
    payload_values [of p ops ruleType onSave st k v]
    blank_partner_saved [of st r r' ops ruleType onSave]
  by blast


lemmas editor_eval = save_calls builtRows_def add_row_def js_trim_def is_js_space_def
  is_defined_def object_prototype_keys_def assign_def set_add_def save_payload_def
  isMappingRule_def isConfigRule_def isNumericConditional_def Let_def example_ops_def

theorem numeric_rule_saved_as_numbers_witness:
  "snd (save example_ops ''deliveryDays'' always_resolves
          \<lparr>rows = [\<lparr>row_key = ''ACME'', row_value = '' 111''\<rparr>,
                   \<lparr>row_key = ''Globex '', row_value = ''1''\<rparr>,
                   \<lparr>row_key = '' '', row_value = ''11111''\<rparr>],
           defaultValue = ''11'', saving = False, save_error = None\<rparr>)
     = [ConditionalRule (JNum 2) [''ACME'' \<mapsto> JNum 3, ''Globex'' \<mapsto> JNum 1]]
   \<and> payload_conditions
       (hd (snd (save example_ops ''deliveryDays'' always_resolves
          \<lparr>rows = [\<lparr>row_key = ''ACME'', row_value = '' 111''\<rparr>,
                   \<lparr>row_key = ''Globex '', row_value = ''1''\<rparr>,
                   \<lparr>row_key = '' '', row_value = ''11111''\<rparr>],
           defaultValue = ''11'', saving = False, save_error = None\<rparr>))) ''ACME''
     = Some (JNum 3)"
proof -
  let ?r = "\<lparr>row_key = ''ACME'', row_value = '' 111''\<rparr>"
  let ?st = "\<lparr>rows = [?r, \<lparr>row_key = ''Globex '', row_value = ''1''\<rparr>,
                   \<lparr>row_key = '' '', row_value = ''11111''\<rparr>],
           defaultValue = ''11'', saving = False, save_error = None\<rparr>"
  let ?p = "hd (snd (save example_ops ''deliveryDays'' always_resolves ?st))"
  have a: "snd (save example_ops ''deliveryDays'' always_resolves ?st)
     = [ConditionalRule (JNum 2) [''ACME'' \<mapsto> JNum 3, ''Globex'' \<mapsto> JNum 1]]"
    by (simp add: editor_eval eval_nat_numeral)
  have h: "?p \<in> set (snd (save example_ops ''deliveryDays'' always_resolves ?st))"
    unfolding a by simp
  have n: "isNumericConditional ''deliveryDays''" by (simp add: isNumericConditional_def)
  have k: "kept ?r" by code_simp
  have m: "?r \<in> set (rows ?st)" by simp
  have v: "js_trim (row_key ?r) = ''ACME''" "to_number example_ops (js_trim (row_value ?r)) = 3"
    by code_simp+
  from numeric_rule_saved_as_numbers [OF h, THEN conjunct1, THEN mp, OF n]
  obtain c where c: "?p = ConditionalRule
                     (JNum (if defaultValue ?st = [] then number_zero example_ops
                            else to_number example_ops (defaultValue ?st))) c"
    and f: "\<forall>r\<in>set (rows ?st). kept r \<longrightarrow>
              c (js_trim (row_key r)) = Some (JNum (to_number example_ops (js_trim (row_value r))))"
    by blast
  from f m k have "c (js_trim (row_key ?r)) = Some (JNum (to_number example_ops (js_trim (row_value ?r))))"
    by blast
  then have "c ''ACME'' = Some (JNum 3)" unfolding v .
  then have b: "payload_conditions ?p ''ACME'' = Some (JNum 3)" unfolding c by simp
  from a b show ?thesis by (rule conjI)
qed

theorem blank_rows_left_out_witness:
  "snd (save example_ops ''salesTaxRate'' always_resolves
      \<lparr>rows = [\<lparr>row_key = ''ACME'', row_value = ''10%''\<rparr>,
               \<lparr>row_key = ''ACME'', row_value = '' ''\<rparr>],
       defaultValue = ''20%'', saving = False, save_error = None\<rparr>)
   = [save_payload example_ops ''salesTaxRate'' ''20%''
        (fst (builtRows example_ops ''salesTaxRate'' [\<lparr>row_key = ''ACME'', row_value = ''10%''\<rparr>]))]
   \<and> payload_conditions
        (save_payload example_ops ''salesTaxRate'' ''20%''
          (fst (builtRows example_ops ''salesTaxRate'' [\<lparr>row_key = ''ACME'', row_value = ''10%''\<rparr>])))
        ''ACME'' = Some (JStr ''10%'')"
proof -
  let ?r = "\<lparr>row_key = ''ACME'', row_value = ''10%''\<rparr>"
  let ?r' = "\<lparr>row_key = ''ACME'', row_value = '' ''\<rparr>"
  let ?st = "\<lparr>rows = [?r, ?r'], defaultValue = ''20%'', saving = False, save_error = None\<rparr>"
  have h: "(rows ?st = [?r, ?r'] \<or> rows ?st = [?r', ?r]) \<and> kept ?r \<and> \<not> kept ?r'
        \<and> js_trim (row_key ?r) \<notin> set object_prototype_keys"
    by code_simp
  have d: "defaultValue ?st = ''20%''" by simp
  from blank_rows_left_out [where st = ?st and r = ?r and r' = ?r' and ops = example_ops
      and ruleType = "''salesTaxRate''" and onSave = always_resolves,
      THEN conjunct2, THEN conjunct2, THEN mp, OF h]
  have a: "snd (save example_ops ''salesTaxRate'' always_resolves ?st) =
     [save_payload example_ops ''salesTaxRate'' ''20%''
        (fst (builtRows example_ops ''salesTaxRate'' [?r]))]"
    unfolding d .
  have b: "payload_conditions
        (save_payload example_ops ''salesTaxRate'' ''20%''
          (fst (builtRows example_ops ''salesTaxRate'' [?r]))) ''ACME'' = Some (JStr ''10%'')"
    by (simp add: editor_eval)
  from a b show ?thesis by (rule conjI)
qed

end
